theory Spec2Isabelle
  imports Complex_Main "HOL-Library.Word" "HOL-Library.While_Combinator"
begin

chapter \<open>The persistence and consistency core of the agenda (db.ts)\<close>

section \<open>Values\<close>

subsection \<open>Strings\<close>

text \<open>
  A JavaScript string is a sequence of 16-bit code units; \<open>charCodeAt\<close> reads one of
  them. \<open>str\<close> writes a literal of the source (all of them are ASCII).
\<close>

type_synonym js_string = "16 word list"

definition str :: "string \<Rightarrow> js_string" where
  "str s = map (\<lambda>c. of_nat (of_char c)) s"

subsection \<open>Values of type \<open>any\<close>\<close>

text \<open>
  What \<open>JSON.parse\<close> can return. A number is carried by its mathematical value.
  An object is the list of its own properties; \<open>map_of\<close> reads one.
  A value of type \<open>any\<close> is a JSON value or \<open>undefined\<close> (\<open>None\<close>).
\<close>

datatype json =
    JNull
  | JBool bool
  | JNum rat
  | JStr js_string
  | JArr "json list"
  | JObj "(js_string \<times> json) list"

type_synonym any = "json option"

datatype error = TypeError | SyntaxError

text \<open>Truthiness, as \<open>if (v)\<close>, \<open>!v\<close>, \<open>a && b\<close> and \<open>a || b\<close> test it.\<close>

fun truthy :: "any \<Rightarrow> bool" where
  "truthy None = False"
| "truthy (Some JNull) = False"
| "truthy (Some (JBool b)) = b"
| "truthy (Some (JNum n)) = (n \<noteq> 0)"
| "truthy (Some (JStr s)) = (s \<noteq> [])"
| "truthy (Some (JArr xs)) = True"
| "truthy (Some (JObj fs)) = True"

text \<open>
  \<open>v.k\<close> for a property name \<open>k\<close> that no prototype defines (\<open>masterList\<close>,
  \<open>active\<close>, \<open>name\<close>, \<open>id\<close>): an object answers with its own property, every other
  value except \<open>null\<close> and \<open>undefined\<close> with \<open>undefined\<close>. On \<open>null\<close> and
  \<open>undefined\<close> the read throws; \<open>field\<close> is the read itself, \<open>get\<close> the read with
  the throw.
\<close>

fun field :: "any \<Rightarrow> js_string \<Rightarrow> any" where
  "field (Some (JObj fs)) k = map_of fs k"
| "field v k = None"

definition nullish :: "any \<Rightarrow> bool" where
  "nullish v = (v = None \<or> v = Some JNull)"

definition get :: "any \<Rightarrow> js_string \<Rightarrow> error + any" where
  "get v k = (if nullish v then Inl TypeError else Inr (field v k))"

text \<open>\<open>v[0]\<close> for a value that is neither \<open>null\<close> nor \<open>undefined\<close>.\<close>

fun index0 :: "any \<Rightarrow> any" where
  "index0 (Some (JArr xs)) = (case xs of [] \<Rightarrow> None | x # _ \<Rightarrow> Some x)"
| "index0 (Some (JStr s)) = (case s of [] \<Rightarrow> None | c # _ \<Rightarrow> Some (JStr [c]))"
| "index0 (Some (JObj fs)) = map_of fs (str ''0'')"
| "index0 v = None"

fun typeof_string :: "any \<Rightarrow> bool" where
  "typeof_string (Some (JStr s)) = True"
| "typeof_string v = False"

fun isArray :: "any \<Rightarrow> bool" where
  "isArray (Some (JArr xs)) = True"
| "isArray v = False"

text \<open>
  \<open>xs.map(f)\<close> and \<open>xs.filter(p)\<close> with a callback that may throw: the first throw
  ends the call. On a value that is not an array there is no such method, and calling it
  is a TypeError.
\<close>

fun mapM :: "('a \<Rightarrow> error + 'b) \<Rightarrow> 'a list \<Rightarrow> error + 'b list" where
  "mapM f [] = Inr []"
| "mapM f (x # xs) =
     (case f x of
        Inl e \<Rightarrow> Inl e
      | Inr y \<Rightarrow> (case mapM f xs of Inl e \<Rightarrow> Inl e | Inr ys \<Rightarrow> Inr (y # ys)))"

fun filterM :: "('a \<Rightarrow> error + bool) \<Rightarrow> 'a list \<Rightarrow> error + 'a list" where
  "filterM p [] = Inr []"
| "filterM p (x # xs) =
     (case p x of
        Inl e \<Rightarrow> Inl e
      | Inr b \<Rightarrow> (case filterM p xs of Inl e \<Rightarrow> Inl e | Inr ys \<Rightarrow> Inr (if b then x # ys else ys)))"

fun array_map :: "(json \<Rightarrow> error + json) \<Rightarrow> any \<Rightarrow> error + json list" where
  "array_map f (Some (JArr xs)) = mapM f xs"
| "array_map f v = Inl TypeError"

fun array_filter :: "(json \<Rightarrow> error + bool) \<Rightarrow> any \<Rightarrow> error + json list" where
  "array_filter p (Some (JArr xs)) = filterM p xs"
| "array_filter p v = Inl TypeError"

section \<open>Constants\<close>

record Category =
  name :: js_string
  color :: js_string

definition PALETTE_COLORS :: "js_string list" where
  "PALETTE_COLORS =
     [str ''cat-sky'', str ''cat-green'', str ''cat-amber'', str ''cat-indigo'', str ''cat-rose'',
      str ''cat-teal'', str ''cat-fuchsia'', str ''cat-lime'', str ''cat-cyan'', str ''cat-violet'',
      str ''cat-red'', str ''cat-orange'', str ''cat-yellow'', str ''cat-emerald'', str ''cat-blue'',
      str ''cat-purple'', str ''cat-pink'']"

definition PREDEFINED_CATEGORIES :: "Category list" where
  "PREDEFINED_CATEGORIES =
     [\<lparr>name = str ''Trabajo'', color = str ''cat-sky''\<rparr>,
      \<lparr>name = str ''Personal'', color = str ''cat-green''\<rparr>,
      \<lparr>name = str ''Hogar'', color = str ''cat-amber''\<rparr>,
      \<lparr>name = str ''Estudios'', color = str ''cat-indigo''\<rparr>,
      \<lparr>name = str ''Salud'', color = str ''cat-rose''\<rparr>,
      \<lparr>name = str ''Compras'', color = str ''cat-teal''\<rparr>,
      \<lparr>name = str ''Ocio'', color = str ''cat-lime''\<rparr>,
      \<lparr>name = str ''Urgente'', color = str ''cat-red''\<rparr>,
      \<lparr>name = str ''Idea'', color = str ''cat-violet''\<rparr>]"

text \<open>A \<open>Category\<close> and a \<open>CategorySettings\<close> of the source, as the objects they are.\<close>

definition category_json :: "json \<Rightarrow> js_string \<Rightarrow> json" where
  "category_json n c = JObj [(str ''name'', n), (str ''color'', JStr c)]"

definition settings_json :: "json list \<Rightarrow> json \<Rightarrow> json" where
  "settings_json masterList active = JObj [(str ''masterList'', JArr masterList), (str ''active'', active)]"

section \<open>The name-to-color hash\<close>

text \<open>
  \<open>hash << 5\<close> takes \<open>hash\<close> modulo \<open>2^32\<close>, shifts, and reads the result as a signed
  32-bit integer; the subtraction and the addition around it are those of numbers, which
  do not wrap. All the values are integers, exact in a JavaScript number below \<open>2^53\<close>.
\<close>

definition stringToHash :: "js_string \<Rightarrow> int" where
  "stringToHash s =
     \<bar>fold (\<lambda>c hash. uint c + (sint (push_bit 5 (word_of_int hash :: 32 word)) - hash)) s 0\<bar>"

text \<open>
  The parameter is declared a string, and the values of a parsed array need not be.
  On such a value \<open>str.length\<close> is \<open>undefined\<close> for a number or a boolean, the number
  of elements for an array and the property \<open>length\<close>, if any, for an object; reading it
  on \<open>null\<close> throws. The loop test is \<open>0 < str.length\<close>. When it holds, the body calls
  \<open>str.charCodeAt\<close>, which only a string has: a TypeError. When it fails the hash is 0.

  For a \<open>length\<close> that is a string, an array or an object JavaScript converts it to a
  number first. That conversion is not part of this repository: \<open>conv v\<close> stands for
  the value of \<open>0 < v\<close> on such a \<open>v\<close>, \<open>None\<close> when the conversion throws.
\<close>

fun less0 :: "(json \<Rightarrow> bool option) \<Rightarrow> any \<Rightarrow> bool option" where
  "less0 conv None = Some False"
| "less0 conv (Some JNull) = Some False"
| "less0 conv (Some (JBool b)) = Some b"
| "less0 conv (Some (JNum n)) = Some (0 < n)"
| "less0 conv (Some v) = conv v"

fun stringToHash_any :: "(json \<Rightarrow> bool option) \<Rightarrow> json \<Rightarrow> error + int" where
  "stringToHash_any conv (JStr s) = Inr (stringToHash s)"
| "stringToHash_any conv JNull = Inl TypeError"
| "stringToHash_any conv (JArr xs) = (if xs = [] then Inr 0 else Inl TypeError)"
| "stringToHash_any conv (JObj fs) =
     (if less0 conv (map_of fs (str ''length'')) = Some False then Inr 0 else Inl TypeError)"
| "stringToHash_any conv v = Inr 0"

section \<open>Category migration\<close>

text \<open>
  The callback of both \<open>map\<close> calls: the color of a predefined category of that name,
  else the palette color the hash selects. \<open>p.name === catName\<close> holds only for a string.
  Every predefined color is a non-empty string, so \<open>||\<close> never passes one over. The
  hash is not negative, so \<open>%\<close> is \<open>mod\<close>, and the index is inside the palette.
\<close>

definition resolve :: "(json \<Rightarrow> bool option) \<Rightarrow> json \<Rightarrow> error + json" where
  "resolve conv catName =
     (case find (\<lambda>p. JStr (name p) = catName) PREDEFINED_CATEGORIES of
        Some predefined \<Rightarrow> Inr (category_json catName (color predefined))
      | None \<Rightarrow>
          (case stringToHash_any conv catName of
             Inl e \<Rightarrow> Inl e
           | Inr h \<Rightarrow> Inr (category_json catName (PALETTE_COLORS ! nat (h mod int (length PALETTE_COLORS))))))"

text \<open>
  \<open>masterList.map(c => c.name)\<close> on the list \<open>resolve\<close> built, each element of which
  has a \<open>name\<close>.
\<close>

definition names :: "json list \<Rightarrow> json" where
  "names masterList = JArr (map (\<lambda>c. case field (Some c) (str ''name'') of Some n \<Rightarrow> n | None \<Rightarrow> JNull) masterList)"

definition migrateCategories :: "(json \<Rightarrow> bool option) \<Rightarrow> any \<Rightarrow> error + json" where
  "migrateCategories conv oldCategories =
     (if isArray oldCategories \<and> typeof_string (index0 oldCategories) then
        (case array_map (resolve conv) oldCategories of
           Inl e \<Rightarrow> Inl e
         | Inr masterList \<Rightarrow> Inr (settings_json masterList (names masterList)))
      else if truthy oldCategories \<and> truthy (field oldCategories (str ''masterList''))
              \<and> typeof_string (index0 (field oldCategories (str ''masterList''))) then
        (case array_map (resolve conv) (field oldCategories (str ''masterList'')) of
           Inl e \<Rightarrow> Inl e
         | Inr masterList \<Rightarrow>
             Inr (settings_json masterList
                    (case field oldCategories (str ''active'') of
                       Some a \<Rightarrow> if truthy (Some a) then a else names masterList
                     | None \<Rightarrow> names masterList)))
      else if truthy oldCategories \<and> isArray (field oldCategories (str ''masterList'')) then
        (case oldCategories of Some v \<Rightarrow> Inr v | None \<Rightarrow> Inr (settings_json [] (JArr [])))
      else Inr (settings_json [] (JArr [])))"

section \<open>Entities\<close>

text \<open>
  The interfaces of the source. An optional field is an \<open>option\<close>. Field names carry
  the entity's name where two interfaces share one. \<open>PublicUser\<close> is \<open>User\<close> without
  the password. A note read from the store may still carry the singular \<open>projectId\<close>
  of an older format, which the loader migrates. The source reads \<open>sharedWith\<close> with
  \<open>?.\<close> and \<open>||\<close>, so it is optional here. The category settings of a project are
  kept as the value they are, since the code inspects their shape when it runs.
\<close>

record PublicUser =
  user_id :: js_string
  username :: js_string
  company :: "js_string option"
  photoB64 :: "js_string option"
  email :: "js_string option"
  phone :: "js_string option"

record User = PublicUser +
  password :: js_string

datatype attachment_type = link_attachment | file_attachment

record Attachment =
  attachment_id :: js_string
  attachment_type :: attachment_type
  attachment_name :: js_string
  content :: js_string

record SharedWith =
  shared_users :: "js_string list"
  shared_groups :: "js_string list"

record Note =
  note_id :: js_string
  note_text :: js_string
  note_description :: "js_string option"
  attachments :: "Attachment list option"
  isCompleted :: bool
  createdAt :: int
  date :: "js_string option"
  time :: "js_string option"
  location :: "js_string option"
  reminder :: "int option"
  categories :: "js_string list"
  note_ownerId :: js_string
  ownerName :: js_string
  sharedWith :: "SharedWith option"
  projectIds :: "js_string list option"
  parentId :: "js_string option"
  projectId :: "js_string option"

datatype role = admin_role | member_role

record GroupMember =
  userId :: js_string
  role :: role

record Group =
  group_id :: js_string
  group_name :: js_string
  group_ownerId :: js_string
  members :: "GroupMember list"
  pendingMemberIds :: "js_string list option"

datatype tab_type = category | multi_category | project_category | project_multi_category

datatype tab_value = Single js_string | Several "js_string list"

record CustomTab =
  tab_id :: js_string
  tab_name :: js_string
  tab_type :: tab_type
  tab_value :: tab_value

record Project =
  project_id :: js_string
  project_name :: js_string
  project_description :: "js_string option"
  project_ownerId :: js_string
  project_color :: js_string
  tabs :: "CustomTab list"
  project_categories :: any

section \<open>The storage\<close>

text \<open>
  The module reads and writes seven fixed keys of a string-to-string storage
  (\<open>getItem\<close>, \<open>setItem\<close>, \<open>removeItem\<close>; the in-memory fallback of the source is a
  map, and its \<open>setItem\<close> does not throw). All it does with a stored string is test it
  with \<open>!json\<close> and hand it to \<open>JSON.parse\<close>. So a stored string is either one on which
  \<open>JSON.parse\<close> throws (the empty string is one) or the text of a document, and the
  storage is a record with one slot for each key, \<open>None\<close> when the key is absent.

  The document of a ledger slot is an array or some other value. An element of the array
  is \<open>null\<close>, a value that the validator of the ledger accepts, taken at the interface's
  type as the validator's type guard takes it (\<open>item is T\<close>), or any other value, which the
  validator rejects.
\<close>

datatype key =
  USERS_KEY | NOTES_KEY | GROUPS_KEY | PROJECTS_KEY | SESSION_KEY | USER_CATEGORIES_KEY | CUSTOM_TABS_KEY

datatype 'a raw = Unparsable js_string | Stringified 'a

datatype 'e entry = Null | Rejected | Accepted 'e

datatype 'e doc = NotArray | Array "'e entry list"

type_synonym UserGeneralCategories = "js_string \<rightharpoonup> json"

record storage =
  agenda_users :: "User doc raw option"
  agenda_notes :: "Note doc raw option"
  agenda_groups :: "Group doc raw option"
  agenda_projects :: "Project doc raw option"
  agenda_session :: "json raw option"
  agenda_user_categories :: "UserGeneralCategories raw option"
  agenda_custom_tabs :: "CustomTab list raw option"

text \<open>\<open>!json\<close> on a stored string: only the empty string is falsy.\<close>

fun empty_string :: "'a raw \<Rightarrow> bool" where
  "empty_string (Unparsable s) = (s = [])"
| "empty_string (Stringified d) = False"

fun JSON_parse :: "'a raw \<Rightarrow> error + 'a" where
  "JSON_parse (Unparsable s) = Inl SyntaxError"
| "JSON_parse (Stringified d) = Inr d"

section \<open>Loading and saving a ledger\<close>

text \<open>
  The four validators accept an object whose \<open>id\<close> and the other fields they name are
  strings: the elements \<open>Accepted\<close> here.
\<close>

fun validator :: "'e entry \<Rightarrow> bool" where
  "validator (Accepted x) = True"
| "validator e = False"

fun accepted :: "'e entry list \<Rightarrow> 'e list" where
  "accepted [] = []"
| "accepted (Accepted x # es) = x # accepted es"
| "accepted (e # es) = accepted es"

text \<open>
  The migration of \<open>projectId\<close> to \<open>projectIds\<close>, the callback of the \<open>map\<close> over the
  notes. Reading \<open>note.projectId\<close> on \<open>null\<close> throws; on a value the validator will
  reject, what the migration does is not seen, since the value is dropped.
\<close>

definition migrate_projectId :: "Note \<Rightarrow> Note" where
  "migrate_projectId note =
     (case projectId note of
        Some p \<Rightarrow>
          if p \<noteq> [] \<and> projectIds note = None
          then note\<lparr>projectIds := Some [p], projectId := None\<rparr> else note
      | None \<Rightarrow> note)"

fun migrate_entry :: "('e \<Rightarrow> 'e) \<Rightarrow> 'e entry \<Rightarrow> error + 'e entry" where
  "migrate_entry migration Null = Inl TypeError"
| "migrate_entry migration Rejected = Inr Rejected"
| "migrate_entry migration (Accepted x) = Inr (Accepted (migration x))"

text \<open>
  \<open>getFromStorage\<close> on the slot of its key: the body of the \<open>try\<close> first, which gives
  the list and the slot as it leaves it, then the \<open>catch\<close>, which removes the key.
  \<open>migration\<close> is the migration of notes, used when the key is \<open>NOTES_KEY\<close>.
\<close>

definition getFromStorage_try ::
  "key \<Rightarrow> ('e \<Rightarrow> 'e) \<Rightarrow> 'e doc raw option \<Rightarrow> error + ('e list \<times> 'e doc raw option)" where
  "getFromStorage_try k migration slot =
     (case slot of
        None \<Rightarrow> Inr ([], slot)
      | Some json \<Rightarrow>
          if empty_string json then Inr ([], slot)
          else
            (case JSON_parse json of
               Inl e \<Rightarrow> Inl e
             | Inr NotArray \<Rightarrow> Inr ([], None)
             | Inr (Array parsed) \<Rightarrow>
                 if k = NOTES_KEY then
                   (case mapM (migrate_entry migration) parsed of
                      Inl e \<Rightarrow> Inl e
                    | Inr migrated \<Rightarrow> Inr (accepted (filter validator migrated), slot))
                 else Inr (accepted (filter validator parsed), slot)))"

definition getFromStorage ::
  "key \<Rightarrow> ('e \<Rightarrow> 'e) \<Rightarrow> 'e doc raw option \<Rightarrow> 'e list \<times> 'e doc raw option" where
  "getFromStorage k migration slot =
     (case getFromStorage_try k migration slot of
        Inr r \<Rightarrow> r
      | Inl e \<Rightarrow> ([], None))"

definition saveToStorage :: "'e list \<Rightarrow> 'e doc raw option" where
  "saveToStorage data = Some (Stringified (Array (map Accepted data)))"

definition getStoredUsers :: "storage \<Rightarrow> User list \<times> storage" where
  "getStoredUsers st =
     (case getFromStorage USERS_KEY (\<lambda>u. u) (agenda_users st) of
        (us, slot) \<Rightarrow> (us, st\<lparr>agenda_users := slot\<rparr>))"

definition getStoredNotes :: "storage \<Rightarrow> Note list \<times> storage" where
  "getStoredNotes st =
     (case getFromStorage NOTES_KEY migrate_projectId (agenda_notes st) of
        (ns, slot) \<Rightarrow> (ns, st\<lparr>agenda_notes := slot\<rparr>))"

definition getStoredGroups :: "storage \<Rightarrow> Group list \<times> storage" where
  "getStoredGroups st =
     (case getFromStorage GROUPS_KEY (\<lambda>g. g) (agenda_groups st) of
        (gs, slot) \<Rightarrow> (gs, st\<lparr>agenda_groups := slot\<rparr>))"

definition getStoredProjects :: "storage \<Rightarrow> Project list \<times> storage" where
  "getStoredProjects st =
     (case getFromStorage PROJECTS_KEY (\<lambda>p. p) (agenda_projects st) of
        (ps, slot) \<Rightarrow> (ps, st\<lparr>agenda_projects := slot\<rparr>))"

text \<open>
  The category map is read without erasing anything: an absent, empty or unparsable
  string gives the empty object.
\<close>

definition getStoredUserCategories :: "storage \<Rightarrow> UserGeneralCategories" where
  "getStoredUserCategories st =
     (case agenda_user_categories st of
        None \<Rightarrow> Map.empty
      | Some r \<Rightarrow>
          if empty_string r then Map.empty
          else (case JSON_parse r of Inl e \<Rightarrow> Map.empty | Inr parsed \<Rightarrow> parsed))"

definition saveUsers :: "User list \<Rightarrow> storage \<Rightarrow> storage" where
  "saveUsers data st = st\<lparr>agenda_users := saveToStorage data\<rparr>"

definition saveNotes :: "Note list \<Rightarrow> storage \<Rightarrow> storage" where
  "saveNotes data st = st\<lparr>agenda_notes := saveToStorage data\<rparr>"

definition saveGroups :: "Group list \<Rightarrow> storage \<Rightarrow> storage" where
  "saveGroups data st = st\<lparr>agenda_groups := saveToStorage data\<rparr>"

definition saveProjects :: "Project list \<Rightarrow> storage \<Rightarrow> storage" where
  "saveProjects data st = st\<lparr>agenda_projects := saveToStorage data\<rparr>"

definition saveUserCategories :: "UserGeneralCategories \<Rightarrow> storage \<Rightarrow> storage" where
  "saveUserCategories data st = st\<lparr>agenda_user_categories := Some (Stringified data)\<rparr>"

section \<open>The public operations\<close>

text \<open>
  An operation takes the storage and returns it with its result. One that can throw
  returns \<open>Inl\<close> with the error and the storage at the throw, since what was written
  before stays written.
\<close>

subsection \<open>Auth and users\<close>

definition defaultCats :: json where
  "defaultCats =
     settings_json (map (\<lambda>c. category_json (JStr (name c)) (color c)) PREDEFINED_CATEGORIES)
       (JArr (map (\<lambda>c. JStr (name c)) PREDEFINED_CATEGORIES))"

definition saveGeneralCategories :: "js_string \<Rightarrow> json \<Rightarrow> storage \<Rightarrow> storage" where
  "saveGeneralCategories uid cats st =
     (let all = getStoredUserCategories st
      in saveUserCategories (all(uid \<mapsto> cats)) st)"

text \<open>
  \<open>uuid()\<close> draws on the clock and on a random source; the identifier it returns is the
  argument \<open>newId\<close>.
\<close>

definition register :: "js_string \<Rightarrow> js_string \<Rightarrow> js_string \<Rightarrow> storage \<Rightarrow> PublicUser option \<times> storage" where
  "register newId uname password_plaintext st =
     (case getStoredUsers st of
        (users, st1) \<Rightarrow>
          if find (\<lambda>u. username u = uname) users \<noteq> None then (None, st1)
          else
            (let newUser = \<lparr>user_id = newId, username = uname, company = None, photoB64 = None,
                             email = None, phone = None, password = password_plaintext\<rparr>;
                 st2 = saveGeneralCategories (user_id newUser) defaultCats st1;
                 st3 = saveUsers (users @ [newUser]) st2
             in (Some (PublicUser.truncate newUser), st3)))"

text \<open>
  \<open>find\<close> with a callback that may throw. In \<open>getCurrentUser\<close> the callback reads
  \<open>user.id\<close> of the parsed session, which throws when the session is \<open>null\<close>, and
  compares it with \<open>===\<close>.
\<close>

fun findM :: "('a \<Rightarrow> error + bool) \<Rightarrow> 'a list \<Rightarrow> error + 'a option" where
  "findM p [] = Inr None"
| "findM p (x # xs) =
     (case p x of
        Inl e \<Rightarrow> Inl e
      | Inr b \<Rightarrow> if b then Inr (Some x) else findM p xs)"

definition same_id :: "json \<Rightarrow> User \<Rightarrow> error + bool" where
  "same_id user u =
     (case get (Some user) (str ''id'') of
        Inl e \<Rightarrow> Inl e
      | Inr v \<Rightarrow> Inr (v = Some (JStr (user_id u))))"

definition getCurrentUser :: "storage \<Rightarrow> PublicUser option \<times> storage" where
  "getCurrentUser st =
     (case agenda_session st of
        None \<Rightarrow> (None, st)
      | Some userJson \<Rightarrow>
          if empty_string userJson then (None, st)
          else
            (case JSON_parse userJson of
               Inl e \<Rightarrow> (None, st\<lparr>agenda_session := None\<rparr>)
             | Inr user \<Rightarrow>
                 (case getStoredUsers st of
                    (users, st1) \<Rightarrow>
                      (case findM (same_id user) users of
                         Inl e \<Rightarrow> (None, st1\<lparr>agenda_session := None\<rparr>)
                       | Inr None \<Rightarrow> (None, st1\<lparr>agenda_session := None\<rparr>)
                       | Inr (Some fullUser) \<Rightarrow> (Some (PublicUser.truncate fullUser), st1)))))"

subsection \<open>Notes\<close>

text \<open>
  \<open>if (n.parentId)\<close>: the parent of a note is its \<open>parentId\<close> when that is a
  non-empty string.
\<close>

definition parent :: "Note \<Rightarrow> js_string option" where
  "parent n = (case parentId n of Some p \<Rightarrow> if p \<noteq> [] then Some p else None | None \<Rightarrow> None)"

definition add_child :: "Note \<Rightarrow> (js_string \<rightharpoonup> js_string list) \<Rightarrow> (js_string \<rightharpoonup> js_string list)" where
  "add_child n childrenMap =
     (case parent n of
        Some p \<Rightarrow> childrenMap(p \<mapsto> (case childrenMap p of None \<Rightarrow> [] | Some cs \<Rightarrow> cs) @ [note_id n])
      | None \<Rightarrow> childrenMap)"

definition build_childrenMap :: "Note list \<Rightarrow> (js_string \<rightharpoonup> js_string list)" where
  "build_childrenMap allNotes = fold add_child allNotes Map.empty"

text \<open>
  The state of the traversal is the queue and the set \<open>idsToDelete\<close>. \<open>visit\<close> is the
  body of the inner \<open>for\<close> loop, \<open>traverse_step\<close> the body of the \<open>while\<close> loop, which
  runs on a non-empty queue only. \<open>while_option\<close> is \<open>None\<close> when the loop does not end.
\<close>

type_synonym traversal = "js_string list \<times> js_string set"

definition visit :: "js_string \<Rightarrow> traversal \<Rightarrow> traversal" where
  "visit childId s =
     (case s of (queue, idsToDelete) \<Rightarrow>
        if childId \<notin> idsToDelete then (queue @ [childId], insert childId idsToDelete)
        else (queue, idsToDelete))"

definition traverse_step :: "(js_string \<rightharpoonup> js_string list) \<Rightarrow> traversal \<Rightarrow> traversal" where
  "traverse_step childrenMap s =
     (case s of
        ([], idsToDelete) \<Rightarrow> s
      | (currentId # queue, idsToDelete) \<Rightarrow>
          (case childrenMap currentId of
             Some children \<Rightarrow> fold visit children (queue, idsToDelete)
           | None \<Rightarrow> (queue, idsToDelete)))"

definition traverse :: "(js_string \<rightharpoonup> js_string list) \<Rightarrow> js_string \<Rightarrow> traversal option" where
  "traverse childrenMap noteId =
     while_option (\<lambda>(queue, idsToDelete). queue \<noteq> []) (traverse_step childrenMap) ([noteId], {noteId})"

definition deleteNote :: "js_string \<Rightarrow> storage \<Rightarrow> storage option" where
  "deleteNote noteId st =
     (case getStoredNotes st of
        (allNotes, st1) \<Rightarrow>
          (case traverse (build_childrenMap allNotes) noteId of
             None \<Rightarrow> None
           | Some (queue, idsToDelete) \<Rightarrow>
               Some (saveNotes (filter (\<lambda>n. note_id n \<notin> idsToDelete) allNotes) st1)))"

subsection \<open>Projects\<close>

definition getProjectsForUser :: "js_string \<Rightarrow> storage \<Rightarrow> Project list \<times> storage" where
  "getProjectsForUser uid st =
     (case getStoredProjects st of
        (projects, st1) \<Rightarrow> (filter (\<lambda>p. project_ownerId p = uid) projects, st1))"

fun findIndex :: "('a \<Rightarrow> bool) \<Rightarrow> 'a list \<Rightarrow> nat option" where
  "findIndex p [] = None"
| "findIndex p (x # xs) = (if p x then Some 0 else map_option Suc (findIndex p xs))"

definition updateProject :: "Project \<Rightarrow> storage \<Rightarrow> storage" where
  "updateProject updatedProject st =
     (case getStoredProjects st of
        (projects, st1) \<Rightarrow>
          (case findIndex (\<lambda>p. project_id p = project_id updatedProject) projects of
             Some idx \<Rightarrow> saveProjects (projects[idx := updatedProject]) st1
           | None \<Rightarrow> st1))"

subsection \<open>Categories\<close>

definition getGeneralCategories ::
  "(json \<Rightarrow> bool option) \<Rightarrow> js_string \<Rightarrow> storage \<Rightarrow> error \<times> storage + json \<times> storage" where
  "getGeneralCategories conv uid st =
     (let allUserCategories = getStoredUserCategories st;
          data = allUserCategories uid
      in if \<not> truthy data then
           Inr (defaultCats, saveUserCategories (allUserCategories(uid \<mapsto> defaultCats)) st)
         else if truthy (field data (str ''masterList''))
                 \<and> typeof_string (index0 (field data (str ''masterList''))) then
           (case migrateCategories conv data of
              Inl e \<Rightarrow> Inl (e, st)
            | Inr migratedData \<Rightarrow>
                Inr (migratedData, saveUserCategories (allUserCategories(uid \<mapsto> migratedData)) st))
         else (case data of Some d \<Rightarrow> Inr (d, st) | None \<Rightarrow> Inr (defaultCats, st)))"

text \<open>
  The two filters of \<open>deleteCategory\<close> on a settings value:
  \<open>s.masterList.filter(c => c.name !== categoryName)\<close>, then
  \<open>s.active.filter(c => c !== categoryName)\<close>. Reading a property of \<open>null\<close> or
  \<open>undefined\<close> throws, and so does \<open>filter\<close> on a value that is not an array.
\<close>

definition other_name :: "js_string \<Rightarrow> json \<Rightarrow> error + bool" where
  "other_name categoryName c =
     (case get (Some c) (str ''name'') of
        Inl e \<Rightarrow> Inl e
      | Inr v \<Rightarrow> Inr (v \<noteq> Some (JStr categoryName)))"

definition without_category :: "js_string \<Rightarrow> any \<Rightarrow> error + json" where
  "without_category categoryName s =
     (case get s (str ''masterList'') of
        Inl e \<Rightarrow> Inl e
      | Inr ml \<Rightarrow>
          (case array_filter (other_name categoryName) ml of
             Inl e \<Rightarrow> Inl e
           | Inr masterList \<Rightarrow>
               (case get s (str ''active'') of
                  Inl e \<Rightarrow> Inl e
                | Inr act \<Rightarrow>
                    (case array_filter (\<lambda>c. Inr (c \<noteq> JStr categoryName)) act of
                       Inl e \<Rightarrow> Inl e
                     | Inr active \<Rightarrow> Inr (settings_json masterList (JArr active))))))"

text \<open>Step 2 of \<open>deleteCategory\<close>: the callback of the \<open>map\<close> over all the notes.\<close>

definition strip_category :: "js_string \<Rightarrow> Note \<Rightarrow> Note" where
  "strip_category categoryName note =
     (if categoryName \<in> set (categories note)
      then note\<lparr>categories := filter (\<lambda>c. c \<noteq> categoryName) (categories note)\<rparr>
      else note)"

text \<open>
  Step 1 of \<open>deleteCategory\<close>. \<open>if (projectId)\<close> holds for a non-empty string.
\<close>

definition deleteCategory_scope ::
  "(json \<Rightarrow> bool option) \<Rightarrow> js_string \<Rightarrow> js_string \<Rightarrow> js_string option \<Rightarrow> storage
     \<Rightarrow> error \<times> storage + storage" where
  "deleteCategory_scope conv uid categoryName pid st =
     (if pid \<noteq> None \<and> pid \<noteq> Some [] then
        (case getProjectsForUser uid st of
           (projects, st1) \<Rightarrow>
             (case find (\<lambda>p. Some (project_id p) = pid) projects of
                Some project \<Rightarrow>
                  (case without_category categoryName (project_categories project) of
                     Inl e \<Rightarrow> Inl (e, st1)
                   | Inr updatedSettings \<Rightarrow>
                       Inr (updateProject (project\<lparr>project_categories := Some updatedSettings\<rparr>) st1))
              | None \<Rightarrow> Inr st1))
      else
        (case getGeneralCategories conv uid st of
           Inl e \<Rightarrow> Inl e
         | Inr (generalCategories, st1) \<Rightarrow>
             (case without_category categoryName (Some generalCategories) of
                Inl e \<Rightarrow> Inl (e, st1)
              | Inr updatedSettings \<Rightarrow> Inr (saveGeneralCategories uid updatedSettings st1))))"

definition deleteCategory ::
  "(json \<Rightarrow> bool option) \<Rightarrow> js_string \<Rightarrow> js_string \<Rightarrow> js_string option \<Rightarrow> storage
     \<Rightarrow> error \<times> storage + storage" where
  "deleteCategory conv uid categoryName pid st =
     (case deleteCategory_scope conv uid categoryName pid st of
        Inl e \<Rightarrow> Inl e
      | Inr st2 \<Rightarrow>
          (case getStoredNotes st2 of
             (allNotes, st3) \<Rightarrow> Inr (saveNotes (map (strip_category categoryName) allNotes) st3)))"

subsection \<open>Groups\<close>

definition strip_group :: "js_string \<Rightarrow> Note \<Rightarrow> Note" where
  "strip_group groupId n =
     (case sharedWith n of
        Some sw \<Rightarrow>
          if groupId \<in> set (shared_groups sw)
          then n\<lparr>sharedWith := Some (sw\<lparr>shared_groups := filter (\<lambda>g. g \<noteq> groupId) (shared_groups sw)\<rparr>)\<rparr>
          else n
      | None \<Rightarrow> n)"

definition deleteGroup :: "js_string \<Rightarrow> storage \<Rightarrow> storage" where
  "deleteGroup groupId st =
     (case getStoredGroups st of
        (gs, st1) \<Rightarrow>
          (let st2 = saveGroups (filter (\<lambda>g. group_id g \<noteq> groupId) gs) st1
           in case getStoredNotes st2 of
                (notes, st3) \<Rightarrow> saveNotes (map (strip_group groupId) notes) st3))"

section \<open>Notions the properties are stated with\<close>

subsection \<open>The hierarchy of notes\<close>

text \<open>
  \<open>child_rel\<close> relates a parent's id to the id of each of its children, and the
  descendants of an id are what the relation reaches from it, the id itself included.
\<close>

definition child_rel :: "Note list \<Rightarrow> (js_string \<times> js_string) set" where
  "child_rel allNotes = {(p, c). \<exists>n \<in> set allNotes. parent n = Some p \<and> note_id n = c}"

definition descendants :: "Note list \<Rightarrow> js_string \<Rightarrow> js_string set" where
  "descendants allNotes a = {x. (a, x) \<in> (child_rel allNotes)\<^sup>*}"

text \<open>\<open>childrenMap.get(p)\<close>, with no children when the key is absent.\<close>

definition children_of :: "(js_string \<rightharpoonup> js_string list) \<Rightarrow> js_string \<Rightarrow> js_string list" where
  "children_of childrenMap p = (case childrenMap p of None \<Rightarrow> [] | Some cs \<Rightarrow> cs)"

text \<open>The state of the traversal after \<open>i\<close> runs of the loop body.\<close>

definition traversal_at :: "(js_string \<rightharpoonup> js_string list) \<Rightarrow> js_string \<Rightarrow> nat \<Rightarrow> traversal" where
  "traversal_at childrenMap noteId i = (traverse_step childrenMap ^^ i) ([noteId], {noteId})"

text \<open>
  For the termination argument: the queue holds no id twice and only collected ids, all
  ids are among those of the ledger and the start, and each run of the body lowers
  the length of the queue plus the number of ids not collected yet by one.
\<close>

definition universe :: "Note list \<Rightarrow> js_string \<Rightarrow> js_string set" where
  "universe ns a = insert a (note_id ` set ns)"

definition trav_inv :: "js_string set \<Rightarrow> traversal \<Rightarrow> bool" where
  "trav_inv U s = (distinct (fst s) \<and> set (fst s) \<subseteq> snd s \<and> snd s \<subseteq> U)"

definition potential :: "js_string set \<Rightarrow> traversal \<Rightarrow> nat" where
  "potential U s = length (fst s) + card (U - snd s)"

text \<open>
  For the correctness argument: the start is collected, every collected id is a
  descendant, and the children of an id that has left the queue are collected.
\<close>

definition collect_inv :: "Note list \<Rightarrow> js_string \<Rightarrow> traversal \<Rightarrow> bool" where
  "collect_inv ns a s =
     (a \<in> snd s \<and> snd s \<subseteq> descendants ns a \<and> set (fst s) \<subseteq> snd s
      \<and> (\<forall>x \<in> snd s - set (fst s). set (children_of (build_childrenMap ns) x) \<subseteq> snd s))"

subsection \<open>Typed views\<close>

text \<open>The record \<open>register\<close> builds for a new user.\<close>

definition new_user :: "js_string \<Rightarrow> js_string \<Rightarrow> js_string \<Rightarrow> User" where
  "new_user newId uname pw =
     \<lparr>user_id = newId, username = uname, company = None, photoB64 = None,
      email = None, phone = None, password = pw\<rparr>"

text \<open>
  A \<open>CategorySettings\<close> of the declared type, as the object it is: a master list of
  categories and a list of active names.
\<close>

definition encode_settings :: "Category list \<Rightarrow> js_string list \<Rightarrow> json" where
  "encode_settings ml act =
     settings_json (map (\<lambda>c. category_json (JStr (name c)) (color c)) ml) (JArr (map JStr act))"

text \<open>
  The color the migration gives a name: that of the predefined category of this name, else
  the palette color at the index the hash selects.
\<close>

definition resolved_color :: "js_string \<Rightarrow> js_string" where
  "resolved_color n =
     (case find (\<lambda>p. name p = n) PREDEFINED_CATEGORIES of
        Some p \<Rightarrow> color p
      | None \<Rightarrow> PALETTE_COLORS ! nat (stringToHash n mod int (length PALETTE_COLORS)))"

subsection \<open>Example stores\<close>

definition empty_storage :: storage where
  "empty_storage =
     \<lparr>agenda_users = None, agenda_notes = None, agenda_groups = None, agenda_projects = None,
      agenda_session = None, agenda_user_categories = None, agenda_custom_tabs = None\<rparr>"

definition a_note :: "string \<Rightarrow> string \<Rightarrow> Note" where
  "a_note i p =
     \<lparr>note_id = str i, note_text = str ''t'', note_description = None, attachments = None,
      isCompleted = False, createdAt = 0, date = None, time = None, location = None,
      reminder = None, categories = [], note_ownerId = str ''alice'', ownerName = str ''alice'',
      sharedWith = None, projectIds = None, parentId = (if p = [] then None else Some (str p)),
      projectId = None\<rparr>"

text \<open>A chain A, B, C with two notes outside it, and a ledger whose parents form a cycle.\<close>

definition chain_notes :: "Note list" where
  "chain_notes = [a_note ''A'' [], a_note ''B'' ''A'', a_note ''C'' ''B'', a_note ''D'' [], a_note ''E'' ''D'']"

definition cyclic_notes :: "Note list" where
  "cyclic_notes = [a_note ''A'' ''B'', a_note ''B'' ''A'', a_note ''D'' []]"

text \<open>A conversion that always throws, for the examples.\<close>

definition no_conversion :: "json \<Rightarrow> bool option" where
  "no_conversion v = None"

definition legacy_settings :: json where
  "legacy_settings =
     JObj [(str ''masterList'', JArr [JStr (str ''Trabajo''), JStr (str ''Cine'')]),
           (str ''active'', JArr [])]"

text \<open>A session that names a user the ledger does not hold.\<close>

definition stale_session :: storage where
  "stale_session = empty_storage\<lparr>agenda_session := Some (Stringified (JObj [(str ''id'', JStr (str ''gone''))]))\<rparr>"

text \<open>
  A note tagged with categories, a project with the category X owned by the given user,
  and stores around them: the project of someone else, one's own project, and general
  settings with the category X.
\<close>

definition x_category :: Category where
  "x_category = \<lparr>name = str ''X'', color = str ''cat-sky''\<rparr>"

definition a_project :: "string \<Rightarrow> string \<Rightarrow> Project" where
  "a_project i owner =
     \<lparr>project_id = str i, project_name = str ''Launch'', project_description = None,
      project_ownerId = str owner, project_color = str ''cat-sky'', tabs = [],
      project_categories = Some (encode_settings [x_category] [str ''X''])\<rparr>"

definition tagged_note :: "string list \<Rightarrow> Note" where
  "tagged_note cs = (a_note ''N'' [])\<lparr>categories := map str cs\<rparr>"

definition foreign_store :: storage where
  "foreign_store = saveProjects [a_project ''P'' ''bob''] (saveNotes [tagged_note [''X'', ''Y'']] empty_storage)"

definition own_store :: storage where
  "own_store = saveProjects [a_project ''P'' ''alice''] (saveNotes [tagged_note [''X'', ''Y'']] empty_storage)"

definition general_store :: storage where
  "general_store =
     saveUserCategories [str ''alice'' \<mapsto> encode_settings [x_category] [str ''X'']]
       (saveNotes [tagged_note [''X'', ''Y'']] empty_storage)"

text \<open>Two groups and a note shared with both.\<close>

definition a_group :: "string \<Rightarrow> Group" where
  "a_group i =
     \<lparr>group_id = str i, group_name = str ''team'', group_ownerId = str ''alice'',
      members = [\<lparr>userId = str ''alice'', role = admin_role\<rparr>], pendingMemberIds = Some []\<rparr>"

definition shared_note :: "string list \<Rightarrow> Note" where
  "shared_note gs = (a_note ''S'' [])\<lparr>sharedWith := Some \<lparr>shared_users = [], shared_groups = map str gs\<rparr>\<rparr>"

definition group_store :: storage where
  "group_store =
     saveGroups [a_group ''G'', a_group ''H'']
       (saveNotes [shared_note [''G'', ''H''], a_note ''D'' []] empty_storage)"

section \<open>Category migration is idempotent\<close>

lemma resolve_shape:
  "resolve conv e = Inr c \<Longrightarrow> \<exists>col. c = category_json e col"
  by (auto simp: resolve_def split: option.splits sum.splits)

lemma mapM_resolve_hd:
  "mapM (resolve conv) (x # xs) = Inr ml \<Longrightarrow> \<exists>col ms. ml = category_json x col # ms"
  by (auto split: sum.splits dest: resolve_shape)

lemma array_map_Inr:
  "array_map f v = Inr ml \<Longrightarrow> \<exists>xs. v = Some (JArr xs) \<and> mapM f xs = Inr ml"
  by (cases "(f, v)" rule: array_map.cases) auto

lemma field_settings_masterList [simp]:
  "field (Some (settings_json ml a)) (str ''masterList'') = Some (JArr ml)"
  by (simp add: settings_json_def)

lemma field_settings_active [simp]:
  "field (Some (settings_json ml a)) (str ''active'') = Some a"
  by (simp add: settings_json_def str_def)

lemma settings_not_array [simp]: "\<not> isArray (Some (settings_json ml a))"
  by (simp add: settings_json_def)

lemma settings_truthy [simp]: "truthy (Some (settings_json ml a))"
  by (simp add: settings_json_def)

lemma migrate_settings_objects:
  "migrateCategories conv (Some (settings_json (category_json x col # ms) a))
     = Inr (settings_json (category_json x col # ms) a)"
  by (simp add: migrateCategories_def category_json_def)

lemma migrate_default:
  "migrateCategories conv (Some (settings_json [] a)) = Inr (settings_json [] a)"
  by (simp add: migrateCategories_def)

lemma migrate_idem:
  assumes "migrateCategories conv x = Inr y"
  shows "migrateCategories conv (Some y) = Inr y"
proof -
  consider (a) "isArray x \<and> typeof_string (index0 x)"
    | (b) "\<not> (isArray x \<and> typeof_string (index0 x))"
          "truthy x \<and> truthy (field x (str ''masterList''))
              \<and> typeof_string (index0 (field x (str ''masterList'')))"
    | (c) "\<not> (isArray x \<and> typeof_string (index0 x))"
          "\<not> (truthy x \<and> truthy (field x (str ''masterList''))
              \<and> typeof_string (index0 (field x (str ''masterList''))))"
    by blast
  then show ?thesis
  proof cases
    case a
    then obtain e es where x: "x = Some (JArr (e # es))"
      by (cases x rule: isArray.cases) (auto split: list.splits)
    from assms a x obtain ml where ml: "mapM (resolve conv) (e # es) = Inr ml"
      and y: "y = settings_json ml (names ml)"
      by (auto simp: migrateCategories_def split: sum.splits)
    from mapM_resolve_hd [OF ml] y show ?thesis
      by (auto simp: migrate_settings_objects)
  next
    case b
    from assms b obtain ml a where ml: "array_map (resolve conv) (field x (str ''masterList'')) = Inr ml"
      and y: "y = settings_json ml a"
      by (auto simp: migrateCategories_def split: sum.splits)
    from array_map_Inr [OF ml] obtain xs where xs: "field x (str ''masterList'') = Some (JArr xs)"
      and m: "mapM (resolve conv) xs = Inr ml" by blast
    from b xs obtain e es where "xs = e # es" by (cases xs) auto
    with m have "mapM (resolve conv) (e # es) = Inr ml" by simp
    from mapM_resolve_hd [OF this] y show ?thesis
      by (auto simp: migrate_settings_objects)
  next
    case c
    show ?thesis
    proof (cases "truthy x \<and> isArray (field x (str ''masterList''))")
      case True
      with assms c have "x = Some y"
        by (auto simp: migrateCategories_def split: option.splits)
      with assms show ?thesis by simp
    next
      case False
      with assms c have "y = settings_json [] (JArr [])"
        by (auto simp: migrateCategories_def)
      then show ?thesis by (simp add: migrate_default)
    qed
  qed
qed

text \<open>
  Claim C4. \<open>migrateCategories\<close> is idempotent: for every input, a list of names, a
  settings object with a list of names, a settings object of the current shape or any
  other value, migrating the result of a migration gives that result again. Where the
  first migration throws there is no result to migrate, and the composition throws the
  same error.
\<close>

theorem migrateCategories_idempotent:
  "(case migrateCategories conv x of Inl e \<Rightarrow> Inl e | Inr y \<Rightarrow> migrateCategories conv (Some y))
     = migrateCategories conv x"
  by (cases "migrateCategories conv x") (simp_all add: migrate_idem)

theorem migrateCategories_idempotent_witness:
  "migrateCategories no_conversion (Some legacy_settings)
     = Inr (settings_json
              [category_json (JStr (str ''Trabajo'')) (str ''cat-sky''),
               category_json (JStr (str ''Cine'')) (str ''cat-yellow'')] (JArr []))
   \<and> migrateCategories no_conversion
         (Some (settings_json
              [category_json (JStr (str ''Trabajo'')) (str ''cat-sky''),
               category_json (JStr (str ''Cine'')) (str ''cat-yellow'')] (JArr [])))
     = Inr (settings_json
              [category_json (JStr (str ''Trabajo'')) (str ''cat-sky''),
               category_json (JStr (str ''Cine'')) (str ''cat-yellow'')] (JArr []))"
proof -
  have m: "migrateCategories no_conversion (Some legacy_settings)
     = Inr (settings_json
              [category_json (JStr (str ''Trabajo'')) (str ''cat-sky''),
               category_json (JStr (str ''Cine'')) (str ''cat-yellow'')] (JArr []))"
    by code_simp
  with migrateCategories_idempotent [of no_conversion "Some legacy_settings"] show ?thesis
    by simp
qed

section \<open>Loading what was saved\<close>

lemma accepted_map_Accepted [simp]: "accepted (map (\<lambda>x. Accepted (f x)) xs) = map f xs"
  by (induction xs) simp_all

lemma accepted_Accepted [simp]: "accepted (map Accepted xs) = xs"
  by (induction xs) simp_all

lemma filter_validator_Accepted' [simp]:
  "filter validator (map Accepted xs) = map Accepted xs"
  by (induction xs) simp_all

lemma filter_validator_Accepted2 [simp]:
  "filter validator (map Accepted xs) = map Accepted xs"
  by (induction xs) simp_all

lemma mapM_migrate_Accepted [simp]:
  "mapM (migrate_entry f) (map Accepted xs) = Inr (map (\<lambda>x. Accepted (f x)) xs)"
  by (induction xs) simp_all

lemma mapM_migrate_accepted:
  "mapM (migrate_entry f) es = Inr es' \<Longrightarrow> accepted (filter validator es') = map f (accepted (filter validator es))"
proof (induction es arbitrary: es')
  case Nil
  then show ?case by simp
next
  case (Cons e es)
  then show ?case by (cases e) (auto split: sum.splits)
qed

lemma getFromStorage_saved:
  "getFromStorage k f (saveToStorage xs) = (if k = NOTES_KEY then map f xs else xs, saveToStorage xs)"
  by (simp add: getFromStorage_def getFromStorage_try_def saveToStorage_def comp_def)

lemma migrate_projectId_idem [simp]:
  "migrate_projectId (migrate_projectId n) = migrate_projectId n"
  by (simp add: migrate_projectId_def split: option.splits)

lemma getFromStorage_notes_range:
  "fst (getFromStorage NOTES_KEY f slot) = [] \<or> (\<exists>xs. fst (getFromStorage NOTES_KEY f slot) = map f xs)"
  by (auto simp: getFromStorage_def getFromStorage_try_def split: option.splits sum.splits doc.splits raw.splits
      dest: mapM_migrate_accepted)

lemma loaded_notes_migrated:
  "map migrate_projectId (fst (getStoredNotes st)) = fst (getStoredNotes st)"
proof -
  have "fst (getStoredNotes st) = fst (getFromStorage NOTES_KEY migrate_projectId (agenda_notes st))"
    by (simp add: getStoredNotes_def split: prod.splits)
  with getFromStorage_notes_range [of migrate_projectId "agenda_notes st"] show ?thesis
    by auto
qed

lemma getStoredNotes_saveNotes:
  "getStoredNotes (saveNotes xs st) = (map migrate_projectId xs, saveNotes xs st)"
  by (simp add: getStoredNotes_def saveNotes_def getFromStorage_saved)

lemma getStoredUsers_saveUsers:
  "getStoredUsers (saveUsers xs st) = (xs, saveUsers xs st)"
  by (simp add: getStoredUsers_def saveUsers_def getFromStorage_saved)

lemma getStoredGroups_saveGroups:
  "getStoredGroups (saveGroups xs st) = (xs, saveGroups xs st)"
  by (simp add: getStoredGroups_def saveGroups_def getFromStorage_saved)

lemma getStoredProjects_saveProjects:
  "getStoredProjects (saveProjects xs st) = (xs, saveProjects xs st)"
  by (simp add: getStoredProjects_def saveProjects_def getFromStorage_saved)

lemma getFromStorage_snd:
  "snd (getFromStorage k f slot) = slot \<or> snd (getFromStorage k f slot) = None"
  by (auto simp: getFromStorage_def getFromStorage_try_def split: option.splits sum.splits doc.splits raw.splits)

lemma getFromStorage_erased:
  "snd (getFromStorage k f slot) = None \<Longrightarrow> fst (getFromStorage k f slot) = []"
  by (auto simp: getFromStorage_def getFromStorage_try_def split: option.splits sum.splits doc.splits raw.splits if_splits)

lemma map_filter_fixed: "map f xs = xs \<Longrightarrow> map f (filter P xs) = filter P xs"
  by (induction xs) auto

section \<open>Cascading deletion of a note\<close>

subsection \<open>The children map and one run of the loop body\<close>

lemma children_of_add_child:
  "set (children_of (add_child n m) p) = set (children_of m p) \<union> (if parent n = Some p then {note_id n} else {})"
  by (auto simp: add_child_def children_of_def split: option.splits)

lemma children_of_fold:
  "set (children_of (fold add_child ns m) p)
     = set (children_of m p) \<union> {note_id n | n. n \<in> set ns \<and> parent n = Some p}"
proof (induction ns arbitrary: m)
  case Nil
  then show ?case by simp
next
  case (Cons n ns)
  show ?case
    unfolding fold_simps Cons.IH children_of_add_child by auto
qed

lemma children_of_build:
  "set (children_of (build_childrenMap ns) p) = {c. (p, c) \<in> child_rel ns}"
  unfolding build_childrenMap_def children_of_fold
  by (auto simp: children_of_def child_rel_def)

lemma fold_visit:
  "\<exists>new. fold visit cs (q, ids) = (q @ new, ids \<union> set new) \<and> distinct new \<and> set new = set cs - ids"
proof (induction cs arbitrary: q ids)
  case Nil
  then show ?case by simp
next
  case (Cons c cs)
  show ?case
  proof (cases "c \<in> ids")
    case True
    from Cons.IH [of q ids] obtain new where
      n: "fold visit cs (q, ids) = (q @ new, ids \<union> set new)" "distinct new" "set new = set cs - ids"
      by blast
    have "fold visit (c # cs) (q, ids) = (q @ new, ids \<union> set new)"
      using True n(1) by (simp add: visit_def)
    moreover have "set new = set (c # cs) - ids" using n(3) True by auto
    ultimately show ?thesis using n(2) by blast
  next
    case False
    from Cons.IH [of "q @ [c]" "insert c ids"] obtain new where
      n: "fold visit cs (q @ [c], insert c ids) = ((q @ [c]) @ new, insert c ids \<union> set new)"
        "distinct new" "set new = set cs - insert c ids"
      by blast
    have "fold visit (c # cs) (q, ids) = (q @ (c # new), ids \<union> set (c # new))"
      using False n(1) by (simp add: visit_def)
    moreover have "distinct (c # new)" using n by auto
    moreover have "set (c # new) = set (c # cs) - ids" using n False by auto
    ultimately show ?thesis by blast
  qed
qed

lemma traverse_step_Cons:
  "\<exists>new. traverse_step cm (c # rest, ids) = (rest @ new, ids \<union> set new)
      \<and> distinct new \<and> set new = set (children_of cm c) - ids"
proof (cases "cm c")
  case None
  then show ?thesis by (simp add: traverse_step_def children_of_def)
next
  case (Some cs)
  with fold_visit [of cs rest ids] show ?thesis
    by (simp add: traverse_step_def children_of_def)
qed

subsection \<open>The loop ends\<close>

lemma step_potential:
  assumes fin: "finite U" and ch: "\<And>p. set (children_of cm p) \<subseteq> U"
    and inv: "trav_inv U s" and ne: "fst s \<noteq> []"
  shows "trav_inv U (traverse_step cm s) \<and> Suc (potential U (traverse_step cm s)) = potential U s"
proof -
  obtain c rest ids where s: "s = (c # rest, ids)"
    using ne by (cases s, cases "fst s") auto
  from traverse_step_Cons [of cm c rest ids] obtain new where
    st: "traverse_step cm (c # rest, ids) = (rest @ new, ids \<union> set new)"
    and d: "distinct new" and n: "set new = set (children_of cm c) - ids"
    by blast
  from inv s have i: "distinct (c # rest)" "set (c # rest) \<subseteq> ids" "ids \<subseteq> U"
    by (simp_all add: trav_inv_def)
  have nU: "set new \<subseteq> U - ids" using n ch [of c] by auto
  have 1: "trav_inv U (rest @ new, ids \<union> set new)"
    using i d n nU by (auto simp: trav_inv_def)
  have "U - ids = (U - (ids \<union> set new)) \<union> set new" using nU by auto
  moreover have "(U - (ids \<union> set new)) \<inter> set new = {}" by auto
  ultimately have "card (U - ids) = card (U - (ids \<union> set new)) + card (set new)"
    using fin by (metis card_Un_disjoint finite_Diff finite_set)
  then have "card (U - ids) = card (U - (ids \<union> set new)) + length new"
    using d by (simp add: distinct_card)
  then have 2: "Suc (potential U (rest @ new, ids \<union> set new)) = potential U (c # rest, ids)"
    by (simp add: potential_def)
  from 1 2 show ?thesis by (simp add: s st)
qed

lemma run_potential:
  assumes fin: "finite U" and ch: "\<And>p. set (children_of cm p) \<subseteq> U" and a: "a \<in> U"
    and ne: "\<forall>i<n. fst (traversal_at cm a i) \<noteq> []"
  shows "trav_inv U (traversal_at cm a n) \<and> potential U (traversal_at cm a n) + n = potential U ([a], {a})"
  using ne
proof (induction n)
  case 0
  then show ?case using a by (simp add: traversal_at_def trav_inv_def)
next
  case (Suc n)
  then have IH: "trav_inv U (traversal_at cm a n)"
      "potential U (traversal_at cm a n) + n = potential U ([a], {a})"
    and ne: "fst (traversal_at cm a n) \<noteq> []"
    by auto
  have "traversal_at cm a (Suc n) = traverse_step cm (traversal_at cm a n)"
    by (simp add: traversal_at_def)
  with step_potential [OF fin ch IH(1) ne] IH(2) show ?case by simp
qed

lemma traversal_stops:
  assumes fin: "finite U" and ch: "\<And>p. set (children_of cm p) \<subseteq> U" and a: "a \<in> U"
  shows "\<exists>k \<le> potential U ([a], {a}). fst (traversal_at cm a k) = [] \<and> (\<forall>i<k. fst (traversal_at cm a i) \<noteq> [])"
proof -
  let ?P = "\<lambda>k. fst (traversal_at cm a k) = []"
  have ex: "\<exists>k \<le> potential U ([a], {a}). ?P k"
  proof (rule ccontr)
    assume "\<not> ?thesis"
    then have "\<forall>i < Suc (potential U ([a], {a})). fst (traversal_at cm a i) \<noteq> []"
      by (simp add: less_Suc_eq_le)
    from run_potential [OF fin ch a this] show False by simp
  qed
  then obtain k0 where k0: "k0 \<le> potential U ([a], {a})" "?P k0" by blast
  define k where "k = (LEAST k. ?P k)"
  have "?P k" unfolding k_def using k0(2) by (rule LeastI)
  moreover have "k \<le> k0" unfolding k_def using k0(2) by (rule Least_le)
  moreover have "\<forall>i<k. \<not> ?P i" unfolding k_def using not_less_Least by blast
  ultimately show ?thesis using k0(1) by (intro exI [of _ k]) auto
qed

lemma while_option_funpow:
  assumes "\<not> b ((c ^^ k) s)" and "\<forall>i<k. b ((c ^^ i) s)"
  shows "while_option b c s = Some ((c ^^ k) s)"
proof -
  have "(LEAST k. \<not> b ((c ^^ k) s)) = k"
    using assms by (intro Least_equality) (auto simp: not_less [symmetric])
  with assms(1) show ?thesis unfolding while_option_def by auto
qed

lemma traverse_funpow:
  assumes "fst (traversal_at cm a k) = []" and "\<forall>i<k. fst (traversal_at cm a i) \<noteq> []"
  shows "traverse cm a = Some (traversal_at cm a k)"
  unfolding traverse_def traversal_at_def
  using assms by (intro while_option_funpow) (auto simp: traversal_at_def split: prod.splits)

lemma universe_children:
  "set (children_of (build_childrenMap ns) p) \<subseteq> universe ns a"
  by (auto simp: children_of_build child_rel_def universe_def)

lemma potential_start: "potential (universe ns a) ([a], {a}) \<le> Suc (length ns)"
proof -
  have "universe ns a - {a} \<subseteq> note_id ` set ns" by (auto simp: universe_def)
  then have "card (universe ns a - {a}) \<le> card (note_id ` set ns)"
    by (intro card_mono) auto
  also have "\<dots> \<le> card (set ns)" by (rule card_image_le) simp
  also have "\<dots> \<le> length ns" by (rule card_length)
  finally show ?thesis by (simp add: potential_def)
qed

lemma traversal_terminates:
  "\<exists>k \<le> Suc (length ns). traverse (build_childrenMap ns) a = Some (traversal_at (build_childrenMap ns) a k)
      \<and> fst (traversal_at (build_childrenMap ns) a k) = []
      \<and> (\<forall>i<k. fst (traversal_at (build_childrenMap ns) a i) \<noteq> [])"
proof -
  have fin: "finite (universe ns a)" by (simp add: universe_def)
  have a: "a \<in> universe ns a" by (simp add: universe_def)
  from traversal_stops [OF fin universe_children a]
  obtain k where k: "k \<le> potential (universe ns a) ([a], {a})"
    "fst (traversal_at (build_childrenMap ns) a k) = []"
    "\<forall>i<k. fst (traversal_at (build_childrenMap ns) a i) \<noteq> []"
    by blast
  from traverse_funpow [OF k(2) k(3)] k potential_start [of ns a] show ?thesis
    by (intro exI [of _ k]) auto
qed

lemma visited_grows:
  assumes ne: "\<forall>i<n. fst (traversal_at cm a i) \<noteq> []"
  shows "distinct (fst (traversal_at cm a n)) \<and> set (fst (traversal_at cm a n)) \<subseteq> snd (traversal_at cm a n)
       \<and> (\<forall>j<n. hd (fst (traversal_at cm a j)) \<in> snd (traversal_at cm a n) - set (fst (traversal_at cm a n)))"
  using ne
proof (induction n)
  case 0
  then show ?case by (simp add: traversal_at_def)
next
  case (Suc n)
  then have IH: "distinct (fst (traversal_at cm a n))"
      "set (fst (traversal_at cm a n)) \<subseteq> snd (traversal_at cm a n)"
      "\<forall>j<n. hd (fst (traversal_at cm a j)) \<in> snd (traversal_at cm a n) - set (fst (traversal_at cm a n))"
    and ne: "fst (traversal_at cm a n) \<noteq> []"
    by auto
  obtain c rest ids where s: "traversal_at cm a n = (c # rest, ids)"
    using ne by (cases "traversal_at cm a n", cases "fst (traversal_at cm a n)") auto
  from traverse_step_Cons [of cm c rest ids] obtain new where
    st: "traverse_step cm (c # rest, ids) = (rest @ new, ids \<union> set new)"
    and d: "distinct new" and n: "set new = set (children_of cm c) - ids"
    by blast
  have next_state: "traversal_at cm a (Suc n) = (rest @ new, ids \<union> set new)"
    by (simp add: traversal_at_def s [unfolded traversal_at_def] st)
  have h: "hd (fst (traversal_at cm a j)) \<in> (ids \<union> set new) - set (rest @ new)" if "j < Suc n" for j
  proof (cases "j = n")
    case True
    then show ?thesis using IH(1,2) n by (auto simp: s)
  next
    case False
    with that have "j < n" by simp
    with IH(3) show ?thesis using n by (auto simp: s)
  qed
  have "distinct (rest @ new)" "set (rest @ new) \<subseteq> ids \<union> set new"
    using IH(1,2) d n by (auto simp: s)
  with h show ?case unfolding next_state fst_conv snd_conv by blast
qed

lemma never_revisits:
  assumes ne: "\<forall>i<k. fst (traversal_at cm a i) \<noteq> []" and ij: "i < j" "j < k"
  shows "hd (fst (traversal_at cm a i)) \<noteq> hd (fst (traversal_at cm a j))"
proof -
  from ne ij have "\<forall>i<j. fst (traversal_at cm a i) \<noteq> []" by auto
  from visited_grows [OF this] ij(1)
  have "hd (fst (traversal_at cm a i)) \<notin> set (fst (traversal_at cm a j))" by auto
  moreover from ne ij(2) have "hd (fst (traversal_at cm a j)) \<in> set (fst (traversal_at cm a j))"
    by simp
  ultimately show ?thesis by metis
qed

subsection \<open>The loop collects the descendants\<close>

lemma collect_inv_step:
  assumes inv: "collect_inv ns a s" and ne: "fst s \<noteq> []"
  shows "collect_inv ns a (traverse_step (build_childrenMap ns) s)"
proof -
  obtain c rest ids where s: "s = (c # rest, ids)"
    using ne by (cases s, cases "fst s") auto
  from traverse_step_Cons [of "build_childrenMap ns" c rest ids] obtain new where
    st: "traverse_step (build_childrenMap ns) (c # rest, ids) = (rest @ new, ids \<union> set new)"
    and n: "set new = set (children_of (build_childrenMap ns) c) - ids"
    by blast
  from inv s have i: "a \<in> ids" "ids \<subseteq> descendants ns a" "c \<in> ids" "set rest \<subseteq> ids"
    "\<forall>x \<in> ids - set (c # rest). set (children_of (build_childrenMap ns) x) \<subseteq> ids"
    by (simp_all add: collect_inv_def)
  have "set new \<subseteq> descendants ns a"
  proof
    fix x assume "x \<in> set new"
    with n have "(c, x) \<in> child_rel ns" by (simp add: children_of_build)
    moreover from i(2,3) have "(a, c) \<in> (child_rel ns)\<^sup>*" by (auto simp: descendants_def)
    ultimately show "x \<in> descendants ns a" by (auto simp: descendants_def)
  qed
  moreover have "set (children_of (build_childrenMap ns) x) \<subseteq> ids \<union> set new"
    if "x \<in> (ids \<union> set new) - set (rest @ new)" for x
  proof (cases "x = c")
    case True
    then show ?thesis using n by auto
  next
    case False
    with that have "x \<in> ids - set (c # rest)" by auto
    with i(5) show ?thesis by blast
  qed
  ultimately show ?thesis using i by (auto simp: s st collect_inv_def)
qed

lemma traverse_collects:
  assumes t: "traverse (build_childrenMap ns) a = Some (q, ids)"
  shows "q = [] \<and> ids = descendants ns a"
proof -
  let ?b = "\<lambda>(queue, idsToDelete). queue \<noteq> ([] :: js_string list)"
  from t have w: "while_option ?b (traverse_step (build_childrenMap ns)) ([a], {a}) = Some (q, ids)"
    by (simp add: traverse_def)
  from while_option_stop [OF w] have q: "q = []" by simp
  have "collect_inv ns a (q, ids)"
  proof (rule while_option_rule [where P = "collect_inv ns a", OF _ w])
    show "collect_inv ns a ([a], {a})" by (simp add: collect_inv_def descendants_def)
  next
    fix s assume "collect_inv ns a s" "?b s"
    then show "collect_inv ns a (traverse_step (build_childrenMap ns) s)"
      by (intro collect_inv_step) (auto split: prod.splits)
  qed
  with q have c: "a \<in> ids" "ids \<subseteq> descendants ns a"
    "\<forall>x \<in> ids. set (children_of (build_childrenMap ns) x) \<subseteq> ids"
    by (simp_all add: collect_inv_def)
  have "x \<in> ids" if "(a, x) \<in> (child_rel ns)\<^sup>*" for x
    using that
  proof (induction rule: rtrancl_induct)
    case base
    then show ?case by (rule c(1))
  next
    case (step y z)
    then have "z \<in> set (children_of (build_childrenMap ns) y)" by (simp add: children_of_build)
    with step.IH c(3) show ?case by blast
  qed
  then have "descendants ns a \<subseteq> ids" by (auto simp: descendants_def)
  with c(2) q show ?thesis by auto
qed

text \<open>
  Claim C1. For every store and every note id \<open>a\<close>, \<open>deleteNote\<close> returns, changes
  no slot but that of the notes, and the ledger read afterwards is the ledger read
  before without the notes whose id is \<open>a\<close> or a descendant of \<open>a\<close>: those are removed,
  every other note stays as it was and where it was. A note is a child of the id its
  \<open>parentId\<close> holds, when that is a non-empty string, as \<open>if (n.parentId)\<close> reads it.
\<close>

theorem deleteNote_cascade:
  "\<exists>st'. deleteNote a st = Some st'
     \<and> st'\<lparr>agenda_notes := agenda_notes st\<rparr> = st
     \<and> fst (getStoredNotes st')
         = filter (\<lambda>n. note_id n \<notin> descendants (fst (getStoredNotes st)) a) (fst (getStoredNotes st))"
proof -
  obtain ns st1 where g: "getStoredNotes st = (ns, st1)" by (cases "getStoredNotes st")
  from traversal_terminates [of ns a] obtain q ids where
    t: "traverse (build_childrenMap ns) a = Some (q, ids)"
    by (metis surj_pair)
  from traverse_collects [OF t] have ids: "ids = descendants ns a" by simp
  let ?rest = "filter (\<lambda>n. note_id n \<notin> descendants ns a) ns"
  have d: "deleteNote a st = Some (saveNotes ?rest st1)"
    by (simp add: deleteNote_def g t ids)
  have st1: "st1 = st\<lparr>agenda_notes := agenda_notes st1\<rparr>"
    using g by (auto simp: getStoredNotes_def split: prod.splits)
  have frame: "(saveNotes ?rest st1)\<lparr>agenda_notes := agenda_notes st\<rparr> = st"
    by (subst st1) (simp add: saveNotes_def)
  have "map migrate_projectId ns = ns"
    using loaded_notes_migrated [of st] g by simp
  then have "map migrate_projectId ?rest = ?rest"
    by (rule map_filter_fixed)
  then have "fst (getStoredNotes (saveNotes ?rest st1)) = ?rest"
    by (simp add: getStoredNotes_saveNotes)
  with d frame show ?thesis by (simp add: g)
qed

lemma child_rel_chain:
  "child_rel chain_notes = {(str ''A'', str ''B''), (str ''B'', str ''C''), (str ''D'', str ''E'')}"
  by (auto simp: child_rel_def chain_notes_def a_note_def parent_def str_def)

lemma descendants_chain:
  "descendants chain_notes (str ''A'') = {str ''A'', str ''B'', str ''C''}"
proof -
  have "x \<in> {str ''A'', str ''B'', str ''C''}" if "(str ''A'', x) \<in> (child_rel chain_notes)\<^sup>*" for x
    using that by (induction rule: rtrancl_induct) (auto simp: child_rel_chain str_def)
  moreover have ab: "(str ''A'', str ''B'') \<in> (child_rel chain_notes)\<^sup>*"
    by (rule r_into_rtrancl) (simp add: child_rel_chain)
  moreover have "(str ''B'', str ''C'') \<in> (child_rel chain_notes)\<^sup>*"
    by (rule r_into_rtrancl) (simp add: child_rel_chain)
  with ab have "(str ''A'', str ''C'') \<in> (child_rel chain_notes)\<^sup>*"
    by (rule rtrancl_trans)
  ultimately show ?thesis by (auto simp: descendants_def)
qed

text \<open>On the chain A, B, C of the claim, deleting A leaves the two unrelated notes.\<close>

theorem deleteNote_cascade_witness:
  "\<exists>st'. deleteNote (str ''A'') (saveNotes chain_notes empty_storage) = Some st'
     \<and> fst (getStoredNotes st') = [a_note ''D'' [], a_note ''E'' ''D'']"
proof -
  have l: "fst (getStoredNotes (saveNotes chain_notes empty_storage)) = chain_notes"
    by (simp add: getStoredNotes_saveNotes chain_notes_def a_note_def migrate_projectId_def)
  have "filter (\<lambda>n. note_id n \<notin> descendants chain_notes (str ''A'')) chain_notes
          = [a_note ''D'' [], a_note ''E'' ''D'']"
    unfolding descendants_chain by (simp add: chain_notes_def a_note_def str_def)
  with deleteNote_cascade [of "str ''A''" "saveNotes chain_notes empty_storage"] show ?thesis
    unfolding l by auto
qed

text \<open>
  Claim C2. For every ledger, cyclic parents included, the traversal of \<open>deleteNote\<close>
  ends: \<open>deleteNote\<close> returns, the loop stops with an empty queue after at most one
  run of its body more than there are notes, and no two runs take the same id from the
  queue, so no id is visited twice.
\<close>

theorem deleteNote_traversal_terminates:
  "(\<exists>st'. deleteNote a st = Some st')
   \<and> (\<exists>k ids. k \<le> Suc (length allNotes)
         \<and> traverse (build_childrenMap allNotes) a = Some ([], ids)
         \<and> traversal_at (build_childrenMap allNotes) a k = ([], ids)
         \<and> (\<forall>i<k. fst (traversal_at (build_childrenMap allNotes) a i) \<noteq> [])
         \<and> (\<forall>i j. i < j \<and> j < k \<longrightarrow>
               hd (fst (traversal_at (build_childrenMap allNotes) a i))
                 \<noteq> hd (fst (traversal_at (build_childrenMap allNotes) a j))))"
proof
  obtain ns st1 where g: "getStoredNotes st = (ns, st1)" by (cases "getStoredNotes st")
  from traversal_terminates [of ns a] obtain q ids where
    "traverse (build_childrenMap ns) a = Some (q, ids)"
    by (metis surj_pair)
  then show "\<exists>st'. deleteNote a st = Some st'" by (simp add: deleteNote_def g)
next
  let ?cm = "build_childrenMap allNotes"
  from traversal_terminates [of allNotes a] obtain k where
    k: "k \<le> Suc (length allNotes)" "traverse ?cm a = Some (traversal_at ?cm a k)"
    "fst (traversal_at ?cm a k) = []" "\<forall>i<k. fst (traversal_at ?cm a i) \<noteq> []"
    by blast
  obtain ids where s: "traversal_at ?cm a k = ([], ids)"
    using k(3) by (cases "traversal_at ?cm a k") auto
  have "\<forall>i j. i < j \<and> j < k \<longrightarrow> hd (fst (traversal_at ?cm a i)) \<noteq> hd (fst (traversal_at ?cm a j))"
    using never_revisits [OF k(4)] by blast
  with k s show "\<exists>k ids. k \<le> Suc (length allNotes)
         \<and> traverse ?cm a = Some ([], ids)
         \<and> traversal_at ?cm a k = ([], ids)
         \<and> (\<forall>i<k. fst (traversal_at ?cm a i) \<noteq> [])
         \<and> (\<forall>i j. i < j \<and> j < k \<longrightarrow>
               hd (fst (traversal_at ?cm a i)) \<noteq> hd (fst (traversal_at ?cm a j)))"
    by (intro exI [of _ k] exI [of _ ids]) simp
qed

theorem deleteNote_traversal_terminates_witness:
  "(\<exists>st'. deleteNote (str ''A'') (saveNotes cyclic_notes empty_storage) = Some st')
   \<and> (\<exists>k \<le> 4. traversal_at (build_childrenMap cyclic_notes) (str ''A'') k = ([], {str ''A'', str ''B''}))"
proof -
  have t: "traverse (build_childrenMap cyclic_notes) (str ''A'') = Some ([], {str ''A'', str ''B''})"
    by code_simp
  have "length cyclic_notes = 3" by (simp add: cyclic_notes_def)
  with deleteNote_traversal_terminates [of "str ''A''" "saveNotes cyclic_notes empty_storage" cyclic_notes]
  show ?thesis unfolding t by auto
qed

section \<open>Corrupted ledgers\<close>

lemma getFromStorage_corrupted:
  "s \<noteq> [] \<Longrightarrow> getFromStorage k f (Some (Unparsable s)) = ([], None)"
  "getFromStorage k f (Some (Stringified NotArray)) = ([], None)"
  "getFromStorage k f None = ([], None)"
  by (simp_all add: getFromStorage_def getFromStorage_try_def)

text \<open>
  Claim C7, as the code has it. A loader that finds a stored string which is not empty
  and on which \<open>JSON.parse\<close> throws, or the text of a value that is not an array, removes
  the key and returns the empty list; the next read finds no stored value and returns the
  empty list again; no error reaches the caller, the loaders being total. This holds for
  \<open>getFromStorage\<close> on every key and for each of the four ledgers.
\<close>

theorem loaders_erase_corrupted:
  assumes "s \<noteq> []"
  shows "getFromStorage k f (Some (Unparsable s)) = ([], None)
    \<and> getFromStorage k f (Some (Stringified NotArray)) = ([], None)
    \<and> getFromStorage k f None = ([], None)
    \<and> getStoredUsers (st\<lparr>agenda_users := Some (Unparsable s)\<rparr>) = ([], st\<lparr>agenda_users := None\<rparr>)
    \<and> getStoredUsers (st\<lparr>agenda_users := Some (Stringified NotArray)\<rparr>) = ([], st\<lparr>agenda_users := None\<rparr>)
    \<and> getStoredNotes (st\<lparr>agenda_notes := Some (Unparsable s)\<rparr>) = ([], st\<lparr>agenda_notes := None\<rparr>)
    \<and> getStoredNotes (st\<lparr>agenda_notes := Some (Stringified NotArray)\<rparr>) = ([], st\<lparr>agenda_notes := None\<rparr>)
    \<and> getStoredGroups (st\<lparr>agenda_groups := Some (Unparsable s)\<rparr>) = ([], st\<lparr>agenda_groups := None\<rparr>)
    \<and> getStoredGroups (st\<lparr>agenda_groups := Some (Stringified NotArray)\<rparr>) = ([], st\<lparr>agenda_groups := None\<rparr>)
    \<and> getStoredProjects (st\<lparr>agenda_projects := Some (Unparsable s)\<rparr>) = ([], st\<lparr>agenda_projects := None\<rparr>)
    \<and> getStoredProjects (st\<lparr>agenda_projects := Some (Stringified NotArray)\<rparr>) = ([], st\<lparr>agenda_projects := None\<rparr>)"
  using assms
  by (simp add: getFromStorage_corrupted getStoredUsers_def getStoredNotes_def getStoredGroups_def
      getStoredProjects_def)

theorem loaders_erase_corrupted_witness:
  "getStoredNotes (empty_storage\<lparr>agenda_notes := Some (Unparsable (str ''{not json''))\<rparr>) = ([], empty_storage)
   \<and> getStoredNotes empty_storage = ([], empty_storage)"
proof -
  have "str ''{not json'' \<noteq> []" by (simp add: str_def)
  from loaders_erase_corrupted [OF this, of NOTES_KEY migrate_projectId empty_storage]
  show ?thesis by (simp add: empty_storage_def getStoredNotes_def)
qed

text \<open>
  The claim as it is written fails for the empty string: it is a stored value that does not
  parse as JSON, the test \<open>!json\<close> returns the empty list before any parsing, and the
  slot keeps the empty string.
\<close>

theorem loader_keeps_empty_string:
  "JSON_parse (Unparsable [] :: Note doc raw) = Inl SyntaxError
   \<and> getStoredNotes (empty_storage\<lparr>agenda_notes := Some (Unparsable [])\<rparr>)
       = ([], empty_storage\<lparr>agenda_notes := Some (Unparsable [])\<rparr>)"
  by (simp add: getStoredNotes_def getFromStorage_def getFromStorage_try_def empty_storage_def)

section \<open>Registration\<close>

lemma getFromStorage_nonempty:
  "fst (getFromStorage k f slot) \<noteq> [] \<Longrightarrow> snd (getFromStorage k f slot) = slot"
  using getFromStorage_snd [of k f slot] getFromStorage_erased [of k f slot] by auto

lemma getStoredUsers_nonempty:
  "fst (getStoredUsers st) \<noteq> [] \<Longrightarrow> snd (getStoredUsers st) = st"
  using getFromStorage_nonempty [of USERS_KEY "\<lambda>u. u" "agenda_users st"]
  by (auto simp: getStoredUsers_def split: prod.splits)

lemma getStoredUsers_categories [simp]:
  "getStoredUsers (saveUserCategories m st) = (fst (getStoredUsers st), saveUserCategories m (snd (getStoredUsers st)))"
  by (simp add: getStoredUsers_def saveUserCategories_def split: prod.splits)

text \<open>
  Claim C6. For every store and every username that a user of the ledger already has
  (equal as strings), \<open>register\<close> returns none and the store after the call is the
  store before it, the user ledger with it. With a username that no user has, it returns
  the public projection of a new user, and the ledger afterwards is the ledger before
  with that user appended.
\<close>

theorem register_unique_username:
  "((\<exists>u \<in> set (fst (getStoredUsers st)). username u = uname)
      \<longrightarrow> register newId uname pw st = (None, st))
   \<and> ((\<forall>u \<in> set (fst (getStoredUsers st)). username u \<noteq> uname)
      \<longrightarrow> fst (register newId uname pw st) = Some (PublicUser.truncate (new_user newId uname pw))
        \<and> fst (getStoredUsers (snd (register newId uname pw st)))
            = fst (getStoredUsers st) @ [new_user newId uname pw])"
proof -
  obtain us st1 where g: "getStoredUsers st = (us, st1)" by (cases "getStoredUsers st")
  have a: "register newId uname pw st = (None, st)" if ex: "\<exists>u \<in> set us. username u = uname"
  proof -
    from ex have "fst (getStoredUsers st) \<noteq> []" by (auto simp: g)
    then have "st1 = st" using getStoredUsers_nonempty [of st] by (simp add: g)
    moreover from ex have "find (\<lambda>u. username u = uname) us \<noteq> None"
      by (auto simp: find_None_iff)
    ultimately show ?thesis by (simp add: register_def g)
  qed
  have b: "fst (register newId uname pw st) = Some (PublicUser.truncate (new_user newId uname pw))
        \<and> fst (getStoredUsers (snd (register newId uname pw st))) = us @ [new_user newId uname pw]"
    if "\<forall>u \<in> set us. username u \<noteq> uname"
  proof -
    from that have "find (\<lambda>u. username u = uname) us = None"
      by (auto simp: find_None_iff)
    then show ?thesis
      by (simp add: register_def g new_user_def Let_def getStoredUsers_saveUsers)
  qed
  from a b show ?thesis by (simp add: g)
qed

theorem register_unique_username_witness:
  "fst (register (str ''id1'') (str ''alice'') (str ''pw1'') empty_storage)
      = Some (PublicUser.truncate (new_user (str ''id1'') (str ''alice'') (str ''pw1'')))
   \<and> register (str ''id2'') (str ''alice'') (str ''pw2'')
        (snd (register (str ''id1'') (str ''alice'') (str ''pw1'') empty_storage))
      = (None, snd (register (str ''id1'') (str ''alice'') (str ''pw1'') empty_storage))"
proof -
  let ?st = "snd (register (str ''id1'') (str ''alice'') (str ''pw1'') empty_storage)"
  have e: "fst (getStoredUsers empty_storage) = []"
    by (simp add: getStoredUsers_def getFromStorage_def getFromStorage_try_def empty_storage_def)
  with register_unique_username [of empty_storage "str ''alice''" "str ''id1''" "str ''pw1''"]
  have 1: "fst (register (str ''id1'') (str ''alice'') (str ''pw1'') empty_storage)
      = Some (PublicUser.truncate (new_user (str ''id1'') (str ''alice'') (str ''pw1'')))"
    and 2: "fst (getStoredUsers ?st) = [new_user (str ''id1'') (str ''alice'') (str ''pw1'')]"
    by simp_all
  have "\<exists>u \<in> set (fst (getStoredUsers ?st)). username u = str ''alice''"
    unfolding 2 by (simp add: new_user_def)
  with register_unique_username [of ?st "str ''alice''" "str ''id2''" "str ''pw2''"]
  have "register (str ''id2'') (str ''alice'') (str ''pw2'') ?st = (None, ?st)" by blast
  with 1 show ?thesis by simp
qed

section \<open>The session\<close>

lemma getStoredUsers_alt:
  "getStoredUsers st = (fst (getFromStorage USERS_KEY (\<lambda>u. u) (agenda_users st)),
                        st\<lparr>agenda_users := snd (getFromStorage USERS_KEY (\<lambda>u. u) (agenda_users st))\<rparr>)"
  by (simp add: getStoredUsers_def split: prod.splits)

lemma getStoredNotes_alt:
  "getStoredNotes st = (fst (getFromStorage NOTES_KEY migrate_projectId (agenda_notes st)),
                        st\<lparr>agenda_notes := snd (getFromStorage NOTES_KEY migrate_projectId (agenda_notes st))\<rparr>)"
  by (simp add: getStoredNotes_def split: prod.splits)

lemma getStoredGroups_alt:
  "getStoredGroups st = (fst (getFromStorage GROUPS_KEY (\<lambda>g. g) (agenda_groups st)),
                        st\<lparr>agenda_groups := snd (getFromStorage GROUPS_KEY (\<lambda>g. g) (agenda_groups st))\<rparr>)"
  by (simp add: getStoredGroups_def split: prod.splits)

lemma getStoredProjects_alt:
  "getStoredProjects st = (fst (getFromStorage PROJECTS_KEY (\<lambda>p. p) (agenda_projects st)),
                        st\<lparr>agenda_projects := snd (getFromStorage PROJECTS_KEY (\<lambda>p. p) (agenda_projects st))\<rparr>)"
  by (simp add: getStoredProjects_def split: prod.splits)

lemma getStoredUsers_session [simp]:
  "agenda_session (snd (getStoredUsers st)) = agenda_session st"
  by (simp add: getStoredUsers_def split: prod.splits)

lemma register_session:
  "agenda_session (snd (register newId uname pw st)) = agenda_session st"
proof -
  obtain us st1 where g: "getStoredUsers st = (us, st1)" by (cases "getStoredUsers st")
  with getStoredUsers_session [of st] have "agenda_session st1 = agenda_session st" by simp
  then show ?thesis
    by (simp add: register_def g Let_def saveUsers_def saveGeneralCategories_def saveUserCategories_def)
qed

lemma getCurrentUser_none_session:
  assumes "fst (getCurrentUser st) = None"
  shows "agenda_session (snd (getCurrentUser st)) = None
       \<or> agenda_session (snd (getCurrentUser st)) = Some (Unparsable [])"
proof (cases "agenda_session st")
  case None
  then show ?thesis by (simp add: getCurrentUser_def)
next
  case (Some t)
  show ?thesis
  proof (cases t)
    case (Unparsable s)
    with Some show ?thesis by (simp add: getCurrentUser_def)
  next
    case (Stringified user)
    obtain us st1 where g: "getStoredUsers st = (us, st1)" by (cases "getStoredUsers st")
    from assms Some Stringified show ?thesis
      by (auto simp: getCurrentUser_def g split: sum.splits option.splits)
  qed
qed

lemma getCurrentUser_no_session:
  "agenda_session st = None \<or> agenda_session st = Some (Unparsable []) \<Longrightarrow> getCurrentUser st = (None, st)"
  by (auto simp: getCurrentUser_def)



section \<open>Deleting a group\<close>

lemma migrate_strip_group:
  "migrate_projectId (strip_group g n) = strip_group g (migrate_projectId n)"
  by (simp add: migrate_projectId_def strip_group_def split: option.splits)

lemma getStoredNotes_other_slot [simp]:
  "fst (getStoredNotes (saveGroups gs st)) = fst (getStoredNotes st)"
  "fst (getStoredNotes (saveProjects ps st)) = fst (getStoredNotes st)"
  "fst (getStoredNotes (saveUserCategories m st)) = fst (getStoredNotes st)"
  "fst (getStoredNotes (snd (getStoredGroups st))) = fst (getStoredNotes st)"
  "fst (getStoredNotes (snd (getStoredProjects st))) = fst (getStoredNotes st)"
  by (simp_all add: getStoredNotes_alt saveGroups_def saveProjects_def saveUserCategories_def
      getStoredGroups_alt getStoredProjects_alt)

lemma getStoredGroups_other_slot [simp]:
  "getStoredGroups (saveNotes ns st) = (fst (getStoredGroups st), saveNotes ns (snd (getStoredGroups st)))"
  "fst (getStoredGroups (snd (getStoredNotes st))) = fst (getStoredGroups st)"
  by (simp_all add: getStoredGroups_alt saveNotes_def getStoredNotes_alt)

lemma strip_group_clean:
  "sharedWith (strip_group g n) = Some sw \<Longrightarrow> g \<notin> set (shared_groups sw)"
  by (auto simp: strip_group_def split: option.splits if_splits)

lemma strip_group_eq:
  "strip_group g n =
     n\<lparr>sharedWith := map_option (\<lambda>sw. sw\<lparr>shared_groups := filter (\<lambda>x. x \<noteq> g) (shared_groups sw)\<rparr>) (sharedWith n)\<rparr>"
proof (cases "sharedWith n")
  case None
  then show ?thesis by (simp add: strip_group_def)
next
  case (Some sw)
  show ?thesis
  proof (cases "g \<in> set (shared_groups sw)")
    case True
    with Some show ?thesis by (simp add: strip_group_def)
  next
    case False
    then have "filter (\<lambda>x. x \<noteq> g) (shared_groups sw) = shared_groups sw"
      by (induction "shared_groups sw") (auto simp: filter_id_conv)
    with Some False show ?thesis by (simp add: strip_group_def)
  qed
qed

lemma deleteGroup_unfold:
  "deleteGroup g st =
     saveNotes (map (strip_group g) (fst (getStoredNotes st)))
       (snd (getStoredNotes (saveGroups (filter (\<lambda>x. group_id x \<noteq> g) (fst (getStoredGroups st))) (snd (getStoredGroups st)))))"
proof -
  obtain gs st1 where g: "getStoredGroups st = (gs, st1)" by (cases "getStoredGroups st")
  let ?st2 = "saveGroups (filter (\<lambda>x. group_id x \<noteq> g) gs) st1"
  obtain ns st3 where n: "getStoredNotes ?st2 = (ns, st3)" by (cases "getStoredNotes ?st2")
  have "fst (getStoredNotes ?st2) = fst (getStoredNotes st)"
    using getStoredNotes_other_slot(4) [of st] by (simp add: g)
  with n have "ns = fst (getStoredNotes st)" by simp
  then show ?thesis by (simp add: deleteGroup_def Let_def g n)
qed



section \<open>Migration of a settings object with names\<close>

lemma hash_step_bound:
  "\<bar>uint (c :: 16 word) + (sint (push_bit 5 (word_of_int h :: 32 word)) - h)\<bar> \<le> \<bar>h\<bar> + 2 ^ 31 + 2 ^ 16"
proof -
  have "uint c < 2 ^ 16" using uint_bounded [of c] by simp
  moreover have "0 \<le> uint c" by simp
  moreover have "sint (push_bit 5 (word_of_int h :: 32 word)) < 2 ^ 31"
    using sint_lt [of "push_bit 5 (word_of_int h :: 32 word)"] by simp
  moreover have "- (2 ^ 31) \<le> sint (push_bit 5 (word_of_int h :: 32 word))"
    using sint_ge [of "push_bit 5 (word_of_int h :: 32 word)"] by simp
  ultimately show ?thesis by linarith
qed

lemma hash_fold_bound:
  "\<bar>fold (\<lambda>c hash. uint (c :: 16 word) + (sint (push_bit 5 (word_of_int hash :: 32 word)) - hash)) s h\<bar>
     \<le> \<bar>h\<bar> + int (length s) * (2 ^ 31 + 2 ^ 16)"
proof (induction s arbitrary: h)
  case Nil
  then show ?case by simp
next
  case (Cons c s)
  have "\<bar>fold (\<lambda>c hash. uint c + (sint (push_bit 5 (word_of_int hash :: 32 word)) - hash)) s
          (uint c + (sint (push_bit 5 (word_of_int h :: 32 word)) - h))\<bar>
      \<le> \<bar>uint c + (sint (push_bit 5 (word_of_int h :: 32 word)) - h)\<bar> + int (length s) * (2 ^ 31 + 2 ^ 16)"
    by (rule Cons.IH)
  also have "\<dots> \<le> (\<bar>h\<bar> + 2 ^ 31 + 2 ^ 16) + int (length s) * (2 ^ 31 + 2 ^ 16)"
    using hash_step_bound [of c h] by linarith
  finally show ?case by (simp add: algebra_simps)
qed

text \<open>
  The hash of a string of at most \<open>2^21\<close> code units stays below \<open>2^53\<close>, where the
  numbers of JavaScript are exact, and so does every value of the loop before it.
\<close>

lemma stringToHash_bound:
  "0 \<le> stringToHash s \<and> stringToHash s \<le> int (length s) * (2 ^ 31 + 2 ^ 16)"
  using hash_fold_bound [of s 0] by (simp add: stringToHash_def)

lemma stringToHash_exact: "length s \<le> 2 ^ 21 \<Longrightarrow> stringToHash s < 2 ^ 53"
proof -
  assume "length s \<le> 2 ^ 21"
  then have "int (length s) \<le> 2 ^ 21" by (metis of_nat_le_iff of_nat_numeral of_nat_power)
  then have "int (length s) * (2 ^ 31 + 2 ^ 16) \<le> 2 ^ 21 * (2 ^ 31 + 2 ^ 16)"
    by (intro mult_right_mono) simp_all
  with stringToHash_bound [of s] show ?thesis by simp
qed

lemma resolve_string:
  "resolve conv (JStr n) = Inr (category_json (JStr n) (resolved_color n))"
  by (simp add: resolve_def resolved_color_def split: option.splits)

lemma mapM_resolve_strings:
  "mapM (resolve conv) (map JStr ns) = Inr (map (\<lambda>n. category_json (JStr n) (resolved_color n)) ns)"
  by (induction ns) (simp_all add: resolve_string)

lemma palette_index: "nat (stringToHash n mod int (length PALETTE_COLORS)) < length PALETTE_COLORS"
  by (simp add: PALETTE_COLORS_def nat_less_iff)

text \<open>
  Claim C5. For an object whose \<open>masterList\<close> is an array of strings and whose
  \<open>active\<close> is an array, empty or not, \<open>migrateCategories\<close> returns a value whose
  \<open>active\<close> is that array and whose \<open>masterList\<close> gives each name the color of the
  predefined category of that name or else the palette color at the index
  \<open>stringToHash name mod\<close> the size of the palette, an index inside the palette.
\<close>

theorem migrateCategories_keeps_active:
  assumes ml: "field x (str ''masterList'') = Some (JArr (map JStr ns))"
    and act: "field x (str ''active'') = Some (JArr a)"
  shows "\<exists>y. migrateCategories conv x = Inr y
     \<and> field (Some y) (str ''active'') = Some (JArr a)
     \<and> field (Some y) (str ''masterList'')
         = Some (JArr (map (\<lambda>n. category_json (JStr n) (resolved_color n)) ns))
     \<and> (\<forall>n \<in> set ns. nat (stringToHash n mod int (length PALETTE_COLORS)) < length PALETTE_COLORS)"
proof -
  from ml obtain fs where x: "x = Some (JObj fs)"
    by (cases "(x, str ''masterList'')" rule: field.cases) auto
  show ?thesis
  proof (cases ns)
    case Nil
    with ml act x have "migrateCategories conv x = Inr (JObj fs)"
      by (simp add: migrateCategories_def)
    with ml act x Nil show ?thesis by simp
  next
    case (Cons n ns')
    with ml act x have "migrateCategories conv x
        = Inr (settings_json (map (\<lambda>n. category_json (JStr n) (resolved_color n)) ns) (JArr a))"
      by (simp add: migrateCategories_def resolve_string mapM_resolve_strings)
    then show ?thesis by (simp add: palette_index)
  qed
qed

theorem migrateCategories_keeps_active_witness:
  "migrateCategories no_conversion (Some legacy_settings)
     = Inr (settings_json
              [category_json (JStr (str ''Trabajo'')) (str ''cat-sky''),
               category_json (JStr (str ''Cine'')) (str ''cat-yellow'')] (JArr []))
   \<and> stringToHash (str ''Cine'') mod 17 = 12 \<and> PALETTE_COLORS ! 12 = str ''cat-yellow''"
proof -
  have 1: "field (Some legacy_settings) (str ''masterList'')
             = Some (JArr (map JStr [str ''Trabajo'', str ''Cine'']))"
    by (simp add: legacy_settings_def)
  have 2: "field (Some legacy_settings) (str ''active'') = Some (JArr [])"
    by (simp add: legacy_settings_def str_def)
  have 3: "migrateCategories no_conversion (Some legacy_settings)
     = Inr (settings_json
              [category_json (JStr (str ''Trabajo'')) (str ''cat-sky''),
               category_json (JStr (str ''Cine'')) (str ''cat-yellow'')] (JArr []))"
    by code_simp
  have 4: "stringToHash (str ''Cine'') mod 17 = 12" by code_simp
  have 5: "PALETTE_COLORS ! 12 = str ''cat-yellow''" by (simp add: PALETTE_COLORS_def)
  from migrateCategories_keeps_active [OF 1 2, of no_conversion] 3 4 5 show ?thesis by simp
qed

section \<open>Deleting a category\<close>

lemma defaultCats_encode:
  "defaultCats = encode_settings PREDEFINED_CATEGORIES (map name PREDEFINED_CATEGORIES)"
  by (simp add: defaultCats_def encode_settings_def comp_def)

lemma other_name_category:
  "other_name x (category_json (JStr n) c) = Inr (n \<noteq> x)"
  by (simp add: other_name_def get_def nullish_def category_json_def)

lemma filterM_categories:
  "filterM (other_name x) (map (\<lambda>c. category_json (JStr (name c)) (color c)) ml)
     = Inr (map (\<lambda>c. category_json (JStr (name c)) (color c)) (filter (\<lambda>c. name c \<noteq> x) ml))"
  by (induction ml) (simp_all add: other_name_category)

lemma filterM_active:
  "filterM (\<lambda>c. Inr (c \<noteq> JStr x)) (map JStr act) = Inr (map JStr (filter (\<lambda>a. a \<noteq> x) act))"
  by (induction act) simp_all

lemma settings_json_not_null [simp]: "settings_json ml a \<noteq> JNull"
  by (simp add: settings_json_def)

lemma without_category_encode:
  "without_category x (Some (encode_settings ml act))
     = Inr (encode_settings (filter (\<lambda>c. name c \<noteq> x) ml) (filter (\<lambda>a. a \<noteq> x) act))"
  by (simp add: without_category_def encode_settings_def get_def nullish_def
      filterM_categories filterM_active)

lemma strip_category_clean: "x \<notin> set (categories (strip_category x n))"
  by (simp add: strip_category_def)

lemma migrate_strip_category:
  "migrate_projectId (strip_category x n) = strip_category x (migrate_projectId n)"
  by (simp add: migrate_projectId_def strip_category_def split: option.splits)

lemma getFromStorage_twice:
  "getFromStorage k f (snd (getFromStorage k f slot)) = getFromStorage k f slot"
  using getFromStorage_snd [of k f slot] getFromStorage_erased [of k f slot]
  by (cases "getFromStorage k f slot") (auto simp: getFromStorage_corrupted(3))

lemma getStoredProjects_twice:
  "getStoredProjects (snd (getStoredProjects st)) = getStoredProjects st"
  by (simp add: getStoredProjects_alt getFromStorage_twice)

lemma findIndex_Some:
  "\<exists>x \<in> set xs. P x \<Longrightarrow> \<exists>i. findIndex P xs = Some i"
  by (induction xs) auto

lemma find_update_findIndex:
  "findIndex P xs = Some i \<Longrightarrow> P y \<Longrightarrow> find P (xs[i := y]) = Some y"
proof (induction xs arbitrary: i)
  case Nil
  then show ?case by simp
next
  case (Cons x xs)
  then show ?case by (cases "P x") auto
qed

lemma notes_slot_frames [simp]:
  "agenda_notes (snd (getStoredProjects st)) = agenda_notes st"
  "agenda_notes (saveProjects ps st) = agenda_notes st"
  "agenda_notes (saveUserCategories m st) = agenda_notes st"
  by (simp_all add: getStoredProjects_alt saveProjects_def saveUserCategories_def)

lemma updateProject_notes [simp]: "agenda_notes (updateProject q st) = agenda_notes st"
  by (cases "getStoredProjects st")
     (auto simp: updateProject_def split: option.splits
       dest: arg_cong [where f = "\<lambda>r. agenda_notes (snd r)"])

lemma getGeneralCategories_notes:
  "getGeneralCategories conv uid st = Inr (v, st1) \<Longrightarrow> agenda_notes st1 = agenda_notes st"
  by (auto simp: getGeneralCategories_def Let_def split: if_splits sum.splits option.splits)

lemma saveGeneralCategories_notes [simp]:
  "agenda_notes (saveGeneralCategories uid v st) = agenda_notes st"
  by (simp add: saveGeneralCategories_def)

lemma deleteCategory_scope_notes:
  assumes "deleteCategory_scope conv uid x pid st = Inr st2"
  shows "agenda_notes st2 = agenda_notes st"
proof (cases "pid \<noteq> None \<and> pid \<noteq> Some []")
  case True
  obtain ps st1 where g: "getStoredProjects st = (ps, st1)" by (cases "getStoredProjects st")
  then have n: "agenda_notes st1 = agenda_notes st"
    using notes_slot_frames(1) [of st] by simp
  from assms True n show ?thesis
    by (auto simp: deleteCategory_scope_def getProjectsForUser_def g split: option.splits sum.splits)
next
  case False
  with assms obtain v st1 u where g: "getGeneralCategories conv uid st = Inr (v, st1)"
    and st2: "st2 = saveGeneralCategories uid u st1"
    by (auto simp: deleteCategory_scope_def split: sum.splits)
  from getGeneralCategories_notes [OF g] st2 show ?thesis by simp
qed

lemma getStoredNotes_fst_cong:
  "agenda_notes st2 = agenda_notes st \<Longrightarrow> fst (getStoredNotes st2) = fst (getStoredNotes st)"
  by (simp add: getStoredNotes_alt)

lemma loaded_strip_category:
  "fst (getStoredNotes (saveNotes (map (strip_category x) (fst (getStoredNotes st))) st3))
     = map (strip_category x) (fst (getStoredNotes st))"
proof -
  have "map migrate_projectId (map (strip_category x) (fst (getStoredNotes st)))
      = map (strip_category x) (map migrate_projectId (fst (getStoredNotes st)))"
    by (simp add: migrate_strip_category)
  then show ?thesis by (simp add: getStoredNotes_saveNotes loaded_notes_migrated)
qed

lemma deleteCategory_after_scope:
  assumes "deleteCategory_scope conv uid x pid st = Inr st2"
  shows "deleteCategory conv uid x pid st
           = Inr (saveNotes (map (strip_category x) (fst (getStoredNotes st))) (snd (getStoredNotes st2)))"
proof -
  have "fst (getStoredNotes st2) = fst (getStoredNotes st)"
    using deleteCategory_scope_notes [OF assms] by (rule getStoredNotes_fst_cong)
  then show ?thesis
    by (cases "getStoredNotes st2") (simp add: deleteCategory_def assms)
qed

lemma deleteCategory_Inr_scope:
  "deleteCategory conv uid x pid st = Inr st' \<Longrightarrow> \<exists>st2. deleteCategory_scope conv uid x pid st = Inr st2"
  by (cases "deleteCategory_scope conv uid x pid st") (auto simp: deleteCategory_def)

lemma deleteCategory_notes:
  assumes "deleteCategory conv uid x pid st = Inr st'"
  shows "fst (getStoredNotes st') = map (strip_category x) (fst (getStoredNotes st))"
proof -
  from deleteCategory_Inr_scope [OF assms] obtain st2 where
    "deleteCategory_scope conv uid x pid st = Inr st2" by blast
  from deleteCategory_after_scope [OF this] assms show ?thesis
    by (simp add: loaded_strip_category)
qed

lemma getStoredProjects_nonempty:
  "fst (getStoredProjects st) \<noteq> [] \<Longrightarrow> snd (getStoredProjects st) = st"
  using getFromStorage_nonempty [of PROJECTS_KEY "\<lambda>p. p" "agenda_projects st"]
  by (simp add: getStoredProjects_alt)

lemma categories_slot_frames [simp]:
  "agenda_user_categories (saveNotes ns st) = agenda_user_categories st"
  "agenda_user_categories (snd (getStoredNotes st)) = agenda_user_categories st"
  "agenda_user_categories (snd (getStoredProjects st)) = agenda_user_categories st"
  by (simp_all add: saveNotes_def getStoredNotes_alt getStoredProjects_alt)

lemma projects_slot_frames [simp]:
  "agenda_projects (saveNotes ns st) = agenda_projects st"
  "agenda_projects (snd (getStoredNotes st)) = agenda_projects st"
  by (simp_all add: saveNotes_def getStoredNotes_alt)

lemma getStoredUserCategories_cong:
  "agenda_user_categories st2 = agenda_user_categories st
     \<Longrightarrow> getStoredUserCategories st2 = getStoredUserCategories st"
  by (simp add: getStoredUserCategories_def)

lemma getStoredProjects_fst_cong:
  "agenda_projects st2 = agenda_projects st \<Longrightarrow> fst (getStoredProjects st2) = fst (getStoredProjects st)"
  by (simp add: getStoredProjects_alt)

lemma getStoredUserCategories_saved:
  "getStoredUserCategories (saveGeneralCategories uid v st) uid = Some v"
  by (simp add: saveGeneralCategories_def saveUserCategories_def getStoredUserCategories_def)



subsection \<open>Examples\<close>

lemma loaded_tagged:
  "fst (getStoredNotes (saveNotes [tagged_note cs] st)) = [tagged_note cs]"
  by (simp add: getStoredNotes_saveNotes tagged_note_def a_note_def migrate_projectId_def)

lemma strip_tagged:
  "strip_category (str ''X'') (tagged_note [''X'', ''Y'']) = tagged_note [''Y'']"
  by (simp add: strip_category_def tagged_note_def str_def)

lemma notes_foreign: "fst (getStoredNotes foreign_store) = [tagged_note [''X'', ''Y'']]"
  unfolding foreign_store_def by (simp add: loaded_tagged)

lemma notes_own: "fst (getStoredNotes own_store) = [tagged_note [''X'', ''Y'']]"
  unfolding own_store_def by (simp add: loaded_tagged)

lemma notes_general: "fst (getStoredNotes general_store) = [tagged_note [''X'', ''Y'']]"
  unfolding general_store_def by (simp add: loaded_tagged)

lemma projects_foreign: "getStoredProjects foreign_store = ([a_project ''P'' ''bob''], foreign_store)"
  unfolding foreign_store_def by (simp add: getStoredProjects_saveProjects)

lemma projects_own: "getStoredProjects own_store = ([a_project ''P'' ''alice''], own_store)"
  unfolding own_store_def by (simp add: getStoredProjects_saveProjects)

lemma general_general:
  "getGeneralCategories conv (str ''alice'') general_store
     = Inr (encode_settings [x_category] [str ''X''], general_store)"
  by (simp add: getGeneralCategories_def general_store_def getStoredUserCategories_def
      saveUserCategories_def encode_settings_def settings_json_def category_json_def Let_def)





end
